theory Spec2Isabelle
  imports Main
begin

section \<open>Action steps\<close>

text \<open>
  The steps of a flow, as background.js builds them: \<open>{type: "goto", url, frameId: 0}\<close>,
  \<open>{type: 'wait', duration}\<close>, and the action a content script reports
  (\<open>{type: 'click', selector, label}\<close> or \<open>{type: 'change', selector, value}\<close>) spread into
  a step together with the frame id of its sender. Times and durations are the integers
  of \<open>Date.now()\<close>, in milliseconds.
\<close>

datatype action =
    ClickAction string string
  | ChangeAction string string

datatype step =
    Goto string nat
  | Wait int
  | Click string string nat
  | Change string string nat

text \<open>\<open>{ ...action, frameId: sender.frameId }\<close>\<close>

fun with_frameId :: "action \<Rightarrow> nat \<Rightarrow> step" where
  "with_frameId (ClickAction sel lbl) f = Click sel lbl f"
| "with_frameId (ChangeAction sel v) f = Change sel v f"

fun is_wait :: "step \<Rightarrow> bool" where
  "is_wait (Wait d) = True"
| "is_wait s = False"

section \<open>The stored flows as a JavaScript object\<close>

text \<open>
  \<open>chrome.storage.local\<close> keeps the flows as one plain object, from flow name to step
  list; a map gives its own properties. The three accesses of background.js follow the
  rules of the language for such an object:
  \<^item> \<open>savedFlows[name]\<close> reads an own property and, where there is none, goes on to
    \<open>Object.prototype\<close>, which has \<open>constructor\<close> and its methods (functions, of which
    \<open>.length\<close> is the number of parameters and \<open>[0]\<close> is \<open>undefined\<close>) and the accessor
    \<open>__proto__\<close> (which gives \<open>Object.prototype\<close> itself, an object without \<open>length\<close>);
  \<^item> \<open>savedFlows[name] = steps\<close> makes or replaces an own property, except that for
    \<open>__proto__\<close>, when it is not an own property, the accessor is called instead: it
    changes the prototype of the object and none of its own properties, and what is
    then written to the storage holds no such entry;
  \<^item> \<open>delete savedFlows[name]\<close> removes an own property and succeeds when there is
    none.
\<close>

type_synonym flows = "string \<rightharpoonup> step list"

datatype js_value =
    Steps "step list"
  | FunctionOfLength nat
  | PrototypeObject
  | Undefined

definition object_prototype :: "string \<Rightarrow> js_value" where
  "object_prototype name =
     (if name \<in> set [''toString'', ''toLocaleString'', ''valueOf''] then FunctionOfLength 0
      else if name \<in> set [''constructor'', ''hasOwnProperty'', ''isPrototypeOf'',
                           ''propertyIsEnumerable'', ''__lookupGetter__'', ''__lookupSetter__'']
      then FunctionOfLength 1
      else if name \<in> set [''__defineGetter__'', ''__defineSetter__''] then FunctionOfLength 2
      else if name = ''__proto__'' then PrototypeObject
      else Undefined)"

definition get_property :: "flows \<Rightarrow> string \<Rightarrow> js_value" where
  "get_property savedFlows name =
     (case savedFlows name of Some steps \<Rightarrow> Steps steps | None \<Rightarrow> object_prototype name)"

definition set_property :: "flows \<Rightarrow> string \<Rightarrow> step list \<Rightarrow> flows" where
  "set_property savedFlows name steps =
     (if name = ''__proto__'' \<and> savedFlows name = None then savedFlows
      else savedFlows(name \<mapsto> steps))"

definition delete_property :: "flows \<Rightarrow> string \<Rightarrow> flows" where
  "delete_property savedFlows name = savedFlows(name := None)"

text \<open>\<open>result.flows || {}\<close>, for the \<open>flows\<close> entry of the storage, absent until the first
  write.\<close>

definition or_empty :: "flows option \<Rightarrow> flows" where
  "or_empty r = (case r of None \<Rightarrow> Map.empty | Some m \<Rightarrow> m)"

section \<open>Recording controller (background.js)\<close>

text \<open>
  An \<open>async\<close> handler runs up to its first \<open>await\<close> when its message arrives and goes on
  later, one stretch at a time; between two stretches any other listener may run. A
  task is a handler that has started and says where it stands:
  \<^item> \<open>handleStartRecording\<close> waits for \<open>chrome.tabs.query\<close>;
  \<^item> \<open>handleStopRecordingAndSave(name)\<close> waits for the browser to read the storage
    (\<open>SaveGet\<close>), has the entry that was read and waits to go on (\<open>SaveGot\<close>), has called
    \<open>chrome.storage.local.set\<close> with the object it built and waits for the browser to
    write it (\<open>SaveSet\<close>), or waits to go on after the write (\<open>SaveSetDone\<close>);
  \<^item> \<open>handleDeleteFlow(name)\<close> likewise.
\<close>

datatype task =
    StartQuery
  | SaveGet string
  | SaveGot string "flows option"
  | SaveSet flows
  | SaveSetDone
  | DeleteGet string
  | DeleteGot string "flows option"
  | DeleteSet flows
  | DeleteSetDone
  | Finished

text \<open>
  The four globals of background.js, the \<open>flows\<close> entry of \<open>chrome.storage.local\<close>, the
  number of \<open>setTimeout(..., 100)\<close> callbacks that \<open>handleCancelRecording\<close> has scheduled and
  that have not run yet, and the tasks, in the order in which they started.
\<close>

record bg_state =
  isRecording :: bool
  recordedSteps :: "step list"
  lastActionTimestamp :: int
  recordingTabId :: "nat option"
  storage_flows :: "flows option"
  resetTimers :: nat
  tasks :: "task list"

text \<open>The sender of a message: \<open>sender.tab.id\<close> (no \<open>tab\<close> for the side panel) and
  \<open>sender.frameId\<close>.\<close>

record sender =
  sender_tab :: "nat option"
  sender_frameId :: nat

datatype request =
    RecordAction action
  | StartRecording
  | StopRecordingAndSave string
  | CancelRecording
  | RunFlow string
  | DisplayFlow string
  | DeleteFlow string
  | GetFlows
  | OtherRequest string

text \<open>What the browser supplies while a stretch of a handler runs: \<open>Date.now()\<close> and the
  first tab that \<open>chrome.tabs.query({active: true, currentWindow: true})\<close> resolves with
  (its id and url).\<close>

record env =
  now :: int
  activeTab :: "(nat \<times> string) option"

text \<open>What \<open>loadSavedFlows\<close> would resolve with if the storage were read now.\<close>

definition loadSavedFlows :: "bg_state \<Rightarrow> flows" where
  "loadSavedFlows s = or_empty (storage_flows s)"

definition resetState :: "bg_state \<Rightarrow> bg_state" where
  "resetState s =
     s\<lparr>isRecording := False, recordedSteps := [], recordingTabId := None,
       lastActionTimestamp := 0\<rparr>"

text \<open>The handlers up to their first \<open>await\<close>.\<close>

definition handleStartRecording :: "bg_state \<Rightarrow> bg_state" where
  "handleStartRecording s =
     (if isRecording s then s else s\<lparr>tasks := tasks s @ [StartQuery]\<rparr>)"

definition handleRecordAction :: "env \<Rightarrow> action \<Rightarrow> sender \<Rightarrow> bg_state \<Rightarrow> bg_state" where
  "handleRecordAction e a sd s =
     (let steps1 =
            (if now e - lastActionTimestamp s > 100
             then recordedSteps s @ [Wait (now e - lastActionTimestamp s)]
             else recordedSteps s)
      in s\<lparr>recordedSteps := steps1 @ [with_frameId a (sender_frameId sd)],
           lastActionTimestamp := now e\<rparr>)"

definition handleStopRecordingAndSave :: "string \<Rightarrow> bg_state \<Rightarrow> bg_state" where
  "handleStopRecordingAndSave flowName s =
     (if \<not> isRecording s then s else s\<lparr>tasks := tasks s @ [SaveGet flowName]\<rparr>)"

definition handleCancelRecording :: "bg_state \<Rightarrow> bg_state" where
  "handleCancelRecording s =
     (if \<not> isRecording s then s
      else s\<lparr>isRecording := False, resetTimers := Suc (resetTimers s)\<rparr>)"

definition handleDeleteFlow :: "string \<Rightarrow> bg_state \<Rightarrow> bg_state" where
  "handleDeleteFlow flowName s = s\<lparr>tasks := tasks s @ [DeleteGet flowName]\<rparr>"

text \<open>
  The next stretch of a task: the state after it (its assignments to the globals, or
  the browser's read or write of the storage) and where the task stands then.
  \<^item> After \<open>chrome.tabs.query\<close>: \<open>if (!tab) return\<close>, else the four assignments of
    \<open>handleStartRecording\<close>.
  \<^item> After the read of a save: \<open>savedFlows[flowName] = recordedSteps\<close> on what was read,
    with the steps recorded by now, and the call of \<open>set\<close>; after the write:
    \<open>resetState()\<close>.
  \<^item> After the read of a delete: \<open>delete savedFlows[flowName]\<close> and the call of \<open>set\<close>.
\<close>

fun task_step :: "env \<Rightarrow> task \<Rightarrow> bg_state \<Rightarrow> task \<times> bg_state" where
  "task_step e StartQuery s =
     (Finished,
      case activeTab e of
        None \<Rightarrow> s
      | Some (tid, u) \<Rightarrow>
          s\<lparr>isRecording := True, recordingTabId := Some tid,
            recordedSteps := [Goto u 0], lastActionTimestamp := now e\<rparr>)"
| "task_step e (SaveGet n) s = (SaveGot n (storage_flows s), s)"
| "task_step e (SaveGot n r) s = (SaveSet (set_property (or_empty r) n (recordedSteps s)), s)"
| "task_step e (SaveSet m) s = (SaveSetDone, s\<lparr>storage_flows := Some m\<rparr>)"
| "task_step e SaveSetDone s = (Finished, resetState s)"
| "task_step e (DeleteGet n) s = (DeleteGot n (storage_flows s), s)"
| "task_step e (DeleteGot n r) s = (DeleteSet (delete_property (or_empty r) n), s)"
| "task_step e (DeleteSet m) s = (DeleteSetDone, s\<lparr>storage_flows := Some m\<rparr>)"
| "task_step e DeleteSetDone s = (Finished, s)"
| "task_step e Finished s = (Finished, s)"

definition advance :: "env \<Rightarrow> nat \<Rightarrow> bg_state \<Rightarrow> bg_state" where
  "advance e i s =
     (if i < length (tasks s)
      then (case task_step e (tasks s ! i) s of
              (t, s') \<Rightarrow> s'\<lparr>tasks := (tasks s)[i := t]\<rparr>)
      else s)"

text \<open>
  The listener for content scripts (messages that have \<open>sender.tab\<close>) and the listener
  for the side panel (messages that have none). \<open>runFlow\<close>, \<open>displayFlow\<close> and \<open>getFlows\<close>
  read the stored flows and assign none of the state above. The messages to the side
  panel (\<open>recordingStateChanged\<close>, \<open>updateLiveSteps\<close>, \<open>flowsUpdated\<close>) and the icon updates
  change none of it either and are left out.
\<close>

definition content_listener :: "env \<Rightarrow> request \<Rightarrow> sender \<Rightarrow> bg_state \<Rightarrow> bg_state" where
  "content_listener e rq sd s =
     (case sender_tab sd of
        None \<Rightarrow> s
      | Some tid \<Rightarrow>
          (case rq of
             RecordAction a \<Rightarrow>
               if isRecording s \<and> Some tid = recordingTabId s
               then handleRecordAction e a sd s else s
           | _ \<Rightarrow> s))"

definition panel_listener :: "env \<Rightarrow> request \<Rightarrow> sender \<Rightarrow> bg_state \<Rightarrow> bg_state" where
  "panel_listener e rq sd s =
     (case sender_tab sd of
        Some tid \<Rightarrow> s
      | None \<Rightarrow>
          (case rq of
             StartRecording \<Rightarrow> handleStartRecording s
           | StopRecordingAndSave n \<Rightarrow> handleStopRecordingAndSave n s
           | CancelRecording \<Rightarrow> handleCancelRecording s
           | DeleteFlow n \<Rightarrow> handleDeleteFlow n s
           | _ \<Rightarrow> s))"

definition on_message :: "env \<Rightarrow> request \<Rightarrow> sender \<Rightarrow> bg_state \<Rightarrow> bg_state" where
  "on_message e rq sd s = panel_listener e rq sd (content_listener e rq sd s)"

text \<open>The events of the service worker: a runtime message, the closing of a tab
  (\<open>chrome.tabs.onRemoved\<close>), the delayed reset scheduled by a cancel, and the next stretch
  of the task at a position of the list.\<close>

datatype bg_event =
    Message request sender
  | TabRemoved nat
  | ResetTimerFired
  | Advance nat

fun bg_step :: "env \<Rightarrow> bg_event \<Rightarrow> bg_state \<Rightarrow> bg_state" where
  "bg_step e (Message rq sd) s = on_message e rq sd s"
| "bg_step e (TabRemoved tid) s =
     (if Some tid = recordingTabId s then handleCancelRecording s else s)"
| "bg_step e ResetTimerFired s =
     (if resetTimers s = 0 then s
      else resetState (s\<lparr>resetTimers := resetTimers s - 1\<rparr>))"
| "bg_step e (Advance i) s = advance e i s"

fun bg_run :: "bg_state \<Rightarrow> (env \<times> bg_event) list \<Rightarrow> bg_state" where
  "bg_run s [] = s"
| "bg_run s ((e, ev) # evs) = bg_run (bg_step e ev s) evs"

text \<open>A \<open>recordAction\<close> report as it reaches the service worker: the time at which the
  listener runs, the reported action and its sender.\<close>

record report =
  report_at :: int
  report_action :: action
  report_from :: sender

definition deliver :: "bg_state \<Rightarrow> report \<Rightarrow> bg_state" where
  "deliver s r =
     on_message \<lparr>now = report_at r, activeTab = None\<rparr> (RecordAction (report_action r))
       (report_from r) s"

definition deliver_all :: "bg_state \<Rightarrow> report list \<Rightarrow> bg_state" where
  "deliver_all s rs = foldl deliver s rs"

definition accepted :: "bg_state \<Rightarrow> report \<Rightarrow> bool" where
  "accepted s r \<longleftrightarrow>
     isRecording s \<and> sender_tab (report_from r) \<noteq> None
       \<and> sender_tab (report_from r) = recordingTabId s"

definition report_step :: "report \<Rightarrow> step" where
  "report_step r = with_frameId (report_action r) (sender_frameId (report_from r))"

section \<open>Frame executor (replay_script.js)\<close>

text \<open>
  An element as \<open>executeStep\<close> uses it: its identity; its \<open>value\<close> property (\<open>None\<close> when
  \<open>typeof element.value\<close> is \<open>'undefined'\<close>); \<open>isContentEditable\<close>; the message of the error
  that calling \<open>element.click()\<close> throws, if it throws (an SVG element has no such
  method); and the message of the error that assigning a string to \<open>element.value\<close>
  throws, if it throws (a file input accepts the empty string only).
\<close>

record element =
  el_ident :: nat
  el_value :: "string option"
  isContentEditable :: bool
  click_error :: "string option"
  set_value_error :: "string \<Rightarrow> string option"

text \<open>
  \<open>waitForElement\<close> runs a callback from \<open>setInterval(..., 100)\<close>. A page gives, for a
  callback set with \<open>setInterval\<close> and a delay, the time between the call and the \<open>k\<close>-th
  run of the callback (\<open>k = 1, 2, ...\<close>), in milliseconds as \<open>Date.now()\<close> counts them, and,
  for every time after the call, what \<open>document.querySelector\<close> answers to a selector at
  that time: an element, \<open>null\<close>, or an exception (it throws on a selector that does not
  parse). \<open>elapsed\<close> is \<open>Date.now() - startTime\<close> in the \<open>k\<close>-th run of the callback of
  \<open>waitForElement\<close>, and \<open>poll\<close> the answer to its query. An exception ends that run of the
  callback: it neither resolves nor rejects, and the interval goes on.
\<close>

datatype query_result =
    Found element
  | NotFound
  | QueryThrows

record page =
  callback_time :: "int \<Rightarrow> nat \<Rightarrow> int"
  querySelector_at :: "int \<Rightarrow> string \<Rightarrow> query_result"

definition elapsed :: "page \<Rightarrow> nat \<Rightarrow> int" where
  "elapsed pg k = callback_time pg 100 k"

definition poll :: "page \<Rightarrow> nat \<Rightarrow> string \<Rightarrow> query_result" where
  "poll pg k sel = querySelector_at pg (elapsed pg k) sel"

text \<open>The promise of \<open>waitForElement\<close> from the \<open>k\<close>-th run on: \<open>None\<close> when it never
  settles, \<open>Inl\<close> the message of the error it rejects with, \<open>Inr\<close> the element it resolves
  with.\<close>

partial_function (option) waitForElement_poll ::
  "page \<Rightarrow> string \<Rightarrow> int \<Rightarrow> nat \<Rightarrow> (string + element) option" where
  "waitForElement_poll pg sel timeout k =
     (case poll pg k sel of
        QueryThrows \<Rightarrow> waitForElement_poll pg sel timeout (Suc k)
      | Found el \<Rightarrow> Some (Inr el)
      | NotFound \<Rightarrow>
          if elapsed pg k > timeout
          then Some (Inl (''Element not found for selector: '' @ sel))
          else waitForElement_poll pg sel timeout (Suc k))"

definition waitForElement :: "page \<Rightarrow> string \<Rightarrow> int \<Rightarrow> (string + element) option" where
  "waitForElement pg sel timeout = waitForElement_poll pg sel timeout 1"

text \<open>\<open>step.selector\<close>; a step without that field gives \<open>undefined\<close>, which
  \<open>querySelector\<close> and the template of the error message turn into a string.\<close>

fun step_selector :: "step \<Rightarrow> string" where
  "step_selector (Click sel lbl f) = sel"
| "step_selector (Change sel v f) = sel"
| "step_selector (Goto u f) = ''undefined''"
| "step_selector (Wait d) = ''undefined''"

text \<open>What \<open>executeStep\<close> does to the page, in order: a call of \<open>element.click()\<close> that
  returns, an assignment to \<open>element.value\<close> or to \<open>element.innerText\<close> that goes through,
  a call of \<open>element.dispatchEvent\<close> with a new event of the given type.\<close>

datatype dom_effect =
    ElementClick nat
  | SetValue nat string
  | SetInnerText nat string
  | DispatchEvent nat string

text \<open>\<open>executeStep\<close>: \<open>None\<close> when its promise never settles; else the effects on the page,
  and \<open>Inl\<close> the message of the error it throws or \<open>Inr ()\<close> when it returns. The timeout of
  \<open>waitForElement\<close> is its default; \<open>executeStep_switch\<close> is the \<open>switch\<close> on \<open>step.type\<close> that
  follows it.\<close>

fun executeStep_switch :: "element \<Rightarrow> step \<Rightarrow> dom_effect list \<times> (string + unit)" where
  "executeStep_switch el (Click sel lbl f) =
     (case click_error el of
        Some msg \<Rightarrow> ([], Inl msg)
      | None \<Rightarrow> ([ElementClick (el_ident el)], Inr ()))"
| "executeStep_switch el (Change sel v f) =
     (if el_value el \<noteq> None then
        (case set_value_error el v of
           Some msg \<Rightarrow> ([], Inl msg)
         | None \<Rightarrow>
             ([SetValue (el_ident el) v, DispatchEvent (el_ident el) ''input'',
               DispatchEvent (el_ident el) ''change'', DispatchEvent (el_ident el) ''blur''],
              Inr ()))
      else if isContentEditable el then
        ([SetInnerText (el_ident el) v, DispatchEvent (el_ident el) ''input'',
          DispatchEvent (el_ident el) ''change'', DispatchEvent (el_ident el) ''blur''],
         Inr ())
      else
        ([], Inl ''Cannot set value on a non-input, non-contenteditable element.''))"
| "executeStep_switch el st = ([], Inr ())"

definition executeStep :: "page \<Rightarrow> step \<Rightarrow> (dom_effect list \<times> (string + unit)) option" where
  "executeStep pg st =
     (case waitForElement pg (step_selector st) 7000 of
        None \<Rightarrow> None
      | Some (Inl msg) \<Rightarrow> Some ([], Inl msg)
      | Some (Inr el) \<Rightarrow> Some (executeStep_switch el st))"

fun effect_target :: "dom_effect \<Rightarrow> nat" where
  "effect_target (ElementClick i) = i"
| "effect_target (SetValue i v) = i"
| "effect_target (SetInnerText i v) = i"
| "effect_target (DispatchEvent i n) = i"

text \<open>The reply to \<open>executeSingleStep\<close>: \<open>{status: 'success', result}\<close> or
  \<open>{status: 'error', message}\<close>; none while \<open>executeStep\<close> has not settled.\<close>

record response =
  status :: string
  message :: "string option"

definition on_executeSingleStep :: "page \<Rightarrow> step \<Rightarrow> (dom_effect list \<times> response) option" where
  "on_executeSingleStep pg st =
     (case executeStep pg st of
        None \<Rightarrow> None
      | Some (effs, Inr u) \<Rightarrow> Some (effs, \<lparr>status = ''success'', message = None\<rparr>)
      | Some (effs, Inl msg) \<Rightarrow> Some (effs, \<lparr>status = ''error'', message = Some msg\<rparr>))"

section \<open>Replay orchestrator (background.js, handleRunFlow)\<close>

text \<open>
  The outcome of \<open>await chrome.tabs.sendMessage(...)\<close>: it throws an error with a message,
  or it resolves with the reply of the frame, which is \<open>undefined\<close> when no listener
  answered.
\<close>

datatype dispatch =
    Throws string
  | Resolves "response option"

text \<open>
  The functions handed to \<open>chrome.scripting.executeScript\<close> as \<open>func\<close> are both of the form
  \<open>(params) => alert(`template`)\<close>. A template is its literal text and its substitutions:
  \<open>${x}\<close> and \<open>${JSON.stringify(x)}\<close> for a variable \<open>x\<close>.
\<close>

datatype template_part =
    Lit string
  | Subst string
  | SubstStringify string

record alert_func =
  params :: "string list"
  template :: "template_part list"

definition failed_func :: alert_func where
  "failed_func =
     \<lparr>params = [''msg''],
      template = [Lit ''Replay failed at step: '', SubstStringify ''step'',
                  Lit ''\<newline>Error: '', Subst ''msg'']\<rparr>"

definition completed_func :: alert_func where
  "completed_func =
     \<lparr>params = [], template = [Lit ''Replicate Operator: Flow replay completed!'']\<rparr>"

text \<open>What the service worker does while it runs a flow, in order: \<open>log\<close>,
  \<open>chrome.tabs.create\<close>, \<open>executeScript\<close> with \<open>files\<close> in all frames of a tab, a
  \<open>setTimeout\<close> delay, \<open>chrome.tabs.sendMessage\<close> of \<open>executeSingleStep\<close> to a frame of a
  tab, \<open>executeScript\<close> with \<open>func\<close> and \<open>args\<close> in a tab, and the end of the handler by a
  TypeError that nothing catches.\<close>

datatype bg_effect =
    Log string
  | TabsCreate string
  | InjectFiles nat "string list"
  | Sleep int
  | SendMessage nat nat step
  | InjectFunc nat alert_func "string list"
  | UncaughtTypeError

text \<open>What the browser answers during one run: the tab that \<open>chrome.tabs.create\<close> resolves
  with (or the error it rejects with), whether \<open>onUpdated\<close> ever reports that tab as
  \<open>complete\<close>, and the outcome of the \<open>sendMessage\<close> for the step at each position of
  \<open>steps.slice(1)\<close>. The two \<open>executeScript\<close> calls resolve.\<close>

record browser =
  created_tab :: "string + nat"
  load_completes :: bool
  dispatch_result :: "nat \<Rightarrow> dispatch"

text \<open>\<open>step.frameId || 0\<close>\<close>

fun step_frameId :: "step \<Rightarrow> nat" where
  "step_frameId (Goto u f) = f"
| "step_frameId (Wait d) = 0"
| "step_frameId (Click sel lbl f) = f"
| "step_frameId (Change sel v f) = f"

text \<open>The message of the error that the \<open>try\<close> block of the loop throws, if it throws:
  the error of \<open>sendMessage\<close> itself, or \<open>new Error(response.message)\<close> for a reply whose
  status is \<open>'error'\<close>.\<close>

fun dispatch_error :: "dispatch \<Rightarrow> string option" where
  "dispatch_error (Throws m) = Some m"
| "dispatch_error (Resolves None) = None"
| "dispatch_error (Resolves (Some r)) =
     (if status r = ''error''
      then Some (case message r of None \<Rightarrow> '''' | Some m \<Rightarrow> m)
      else None)"

text \<open>The loop over \<open>steps.slice(1)\<close> from position \<open>k\<close> on, together with what follows
  the loop; the \<open>return\<close> in the \<open>catch\<close> block leaves both.\<close>

fun replay_steps :: "(nat \<Rightarrow> dispatch) \<Rightarrow> nat \<Rightarrow> nat \<Rightarrow> step list \<Rightarrow> bg_effect list" where
  "replay_steps out tab k [] =
     [Log ''Flow execution finished successfully.'', InjectFunc tab completed_func []]"
| "replay_steps out tab k (st # rest) =
     Log ''Orchestrating step:'' #
     (case st of
        Wait d \<Rightarrow> Sleep d # replay_steps out tab (Suc k) rest
      | _ \<Rightarrow>
          SendMessage tab (step_frameId st) st #
          (case dispatch_error (out k) of
             Some msg \<Rightarrow>
               [Log (''Failed to send message to frame or it failed. Error: '' @ msg),
                Log ''Stopping flow due to error.'',
                InjectFunc tab failed_func [msg]]
           | None \<Rightarrow>
               Log ''Waiting 500ms for page to stabilize...'' # Sleep 500 #
               replay_steps out tab (Suc k) rest))"

fun decimal :: "nat \<Rightarrow> string" where
  "decimal n =
     (if n < 10 then [''0123456789'' ! n]
      else decimal (n div 10) @ [''0123456789'' ! (n mod 10)])"

text \<open>
  \<open>handleRunFlow\<close>, given the flows that \<open>loadSavedFlows\<close> resolved with. \<open>steps\<close> is
  \<open>savedFlows[flowName]\<close>: the guard \<open>!steps || steps.length === 0\<close> holds for \<open>undefined\<close>, for
  an empty list and for a function without parameters; what passes it without being a
  list has no first element, and reading \<open>initialStep.type\<close> then throws, before the
  \<open>try\<close>.
\<close>

definition handleRunFlow :: "browser \<Rightarrow> flows \<Rightarrow> string \<Rightarrow> bg_effect list" where
  \<open>handleRunFlow b savedFlows flowName =
     Log (''Attempting to run flow: "'' @ flowName @ ''"'') #
     (case get_property savedFlows flowName of
        Undefined \<Rightarrow> [Log ''Error: Flow not found.'']
      | Steps [] \<Rightarrow> [Log ''Error: Flow not found.'']
      | FunctionOfLength 0 \<Rightarrow> [Log ''Error: Flow not found.'']
      | FunctionOfLength (Suc n) \<Rightarrow> [UncaughtTypeError]
      | PrototypeObject \<Rightarrow> [UncaughtTypeError]
      | Steps (initialStep # rest) \<Rightarrow>
          (case initialStep of
             Goto u f \<Rightarrow>
               TabsCreate u #
               (case created_tab b of
                  Inl err \<Rightarrow> [Log ''Error during handleRunFlow setup:'']
                | Inr tab \<Rightarrow>
                    if \<not> load_completes b then []
                    else
                      Log (''Tab '' @ decimal tab
                           @ '' loaded. Injecting replay script into all frames.'') #
                      InjectFiles tab [''replay_script.js''] #
                      Log ''Replay script injected. Starting step-by-step execution.'' #
                      replay_steps (dispatch_result b) tab 0 rest)
           | _ \<Rightarrow> [Log ''Error: Flow must start with a "goto".'']))\<close>

text \<open>
  \<open>chrome.scripting.executeScript\<close> does not run \<open>func\<close> where it was written: the function
  is serialised and called in the tab with \<open>args\<close> as its arguments, so that its
  parameters are the only variables of the service worker it can read. \<open>alert_in_tab\<close> is
  the text the tab alerts: each substitution is looked up among the parameters, bound to
  \<open>args\<close> in order, and then among the tab's own globals \<open>g\<close> (the name of a global to
  what \<open>${...}\<close> and \<open>JSON.stringify\<close> print for it); a name bound in neither makes the
  call throw a ReferenceError before \<open>alert\<close> is reached, and nothing is alerted. \<open>quote\<close> is
  \<open>JSON.stringify\<close> on strings.
\<close>

fun eval_part ::
  "(string \<Rightarrow> string) \<Rightarrow> (string \<rightharpoonup> string) \<Rightarrow> (string \<rightharpoonup> string \<times> string)
     \<Rightarrow> template_part \<Rightarrow> string option" where
  "eval_part quote bound g (Lit s) = Some s"
| "eval_part quote bound g (Subst x) =
     (case bound x of Some v \<Rightarrow> Some v
      | None \<Rightarrow> (case g x of Some (shown, json) \<Rightarrow> Some shown | None \<Rightarrow> None))"
| "eval_part quote bound g (SubstStringify x) =
     (case bound x of Some v \<Rightarrow> Some (quote v)
      | None \<Rightarrow> (case g x of Some (shown, json) \<Rightarrow> Some json | None \<Rightarrow> None))"

fun eval_template ::
  "(string \<Rightarrow> string) \<Rightarrow> (string \<rightharpoonup> string) \<Rightarrow> (string \<rightharpoonup> string \<times> string)
     \<Rightarrow> template_part list \<Rightarrow> string option" where
  "eval_template quote bound g [] = Some []"
| "eval_template quote bound g (p # ps) =
     (case eval_part quote bound g p of
        None \<Rightarrow> None
      | Some s \<Rightarrow> (case eval_template quote bound g ps of
                     None \<Rightarrow> None
                   | Some t \<Rightarrow> Some (s @ t)))"

definition alert_in_tab ::
  "(string \<Rightarrow> string) \<Rightarrow> (string \<rightharpoonup> string \<times> string) \<Rightarrow> alert_func \<Rightarrow> string list
     \<Rightarrow> string option" where
  "alert_in_tab quote g fn args =
     eval_template quote (map_of (zip (params fn) args)) g (template fn)"

section \<open>Selector resolver and frame observers (content scripts)\<close>

text \<open>
  What the content scripts read of an element, besides the properties above: its
  \<open>tagName\<close> (upper case, as the DOM gives it), its \<open>id\<close> property as the string that a
  template literal and \<open>CSS.escape\<close> make of it (empty when the element has no id; the
  property reflects the \<open>id\<close> attribute, except on a \<open>form\<close> with a control named \<open>id\<close>,
  where it is that control and the string is \<open>[object HTMLInputElement]\<close> or the like), its
  attributes, the tag names of its previous element siblings (nearest first), and its
  \<open>innerText\<close>. An element comes with its \<open>parentElement\<close>, which the root lacks; two
  elements are the same object when their \<open>el_ident\<close> is the same.
\<close>

record node = element +
  tagName :: string
  node_id :: string
  getAttribute :: "string \<rightharpoonup> string"
  previousTags :: "string list"
  innerText :: string

datatype dom_element = Element node "dom_element option"

fun node_of :: "dom_element \<Rightarrow> node" where
  "node_of (Element n p) = n"

fun parentElement :: "dom_element \<Rightarrow> dom_element option" where
  "parentElement (Element n p) = p"

text \<open>
  \<open>CSS.escape\<close> is not defined by the scripts: it is the browser's, and does what the CSSOM
  standard says (serialize an identifier). Character by character: NULL becomes U+FFFD;
  a control character (U+0001 to U+001F, U+007F), a digit at the start, and a digit
  that follows a \<open>-\<close> at the start, are escaped as code points (a backslash, the code in
  lower-case hexadecimal, a space); a \<open>-\<close> that is the whole string is escaped; a character
  from U+0080 on, \<open>-\<close>, \<open>_\<close>, a digit and a letter stay as they are; any other character
  gets a backslash. A \<open>char\<close> from 0x80 on is a piece of a character beyond ASCII, which
  is kept, and U+FFFD is written as the three of them that encode it.
\<close>

definition hex_digits :: string where
  "hex_digits = ''0123456789abcdef''"

fun hex :: "nat \<Rightarrow> string" where
  "hex n = (if n < 16 then [hex_digits ! n] else hex (n div 16) @ [hex_digits ! (n mod 16)])"

definition escaped_as_code_point :: "char \<Rightarrow> string" where
  "escaped_as_code_point c = CHR 0x5C # hex (of_char c) @ '' ''"

definition escaped :: "char \<Rightarrow> string" where
  "escaped c = [CHR 0x5C, c]"

definition is_digit :: "char \<Rightarrow> bool" where
  "is_digit c = (0x30 \<le> (of_char c :: nat) \<and> (of_char c :: nat) \<le> 0x39)"

definition is_name_char :: "char \<Rightarrow> bool" where
  "is_name_char c =
     (0x80 \<le> (of_char c :: nat) \<or> c = CHR ''-'' \<or> c = CHR ''_'' \<or> is_digit c
      \<or> (0x41 \<le> (of_char c :: nat) \<and> (of_char c :: nat) \<le> 0x5A)
      \<or> (0x61 \<le> (of_char c :: nat) \<and> (of_char c :: nat) \<le> 0x7A))"

definition escape_at :: "string \<Rightarrow> nat \<Rightarrow> string" where
  "escape_at s i =
     (let c = s ! i in
      if (of_char c :: nat) = 0 then [CHR 0xEF, CHR 0xBF, CHR 0xBD]
      else if (of_char c :: nat) \<le> 0x1F \<or> (of_char c :: nat) = 0x7F
      then escaped_as_code_point c
      else if i = 0 \<and> is_digit c then escaped_as_code_point c
      else if i = 1 \<and> is_digit c \<and> s ! 0 = CHR ''-'' then escaped_as_code_point c
      else if i = 0 \<and> length s = 1 \<and> c = CHR ''-'' then escaped c
      else if is_name_char c then [c]
      else escaped c)"

definition CSS_escape :: "string \<Rightarrow> string" where
  "CSS_escape s = concat (map (escape_at s) [0..<length s])"

text \<open>The strings that \<open>CSS.escape\<close> has nothing to do on.\<close>

definition needs_no_escape :: "string \<Rightarrow> bool" where
  "needs_no_escape s =
     (list_all is_name_char s
      \<and> (case s of
           [] \<Rightarrow> True
         | c # cs \<Rightarrow>
             \<not> is_digit c
             \<and> \<not> (c = CHR ''-'' \<and> (case cs of [] \<Rightarrow> True | d # ds \<Rightarrow> is_digit d))))"

text \<open>
  What the scripts call besides: \<open>String.prototype.toLowerCase\<close> and \<open>trim\<close>, the number of
  elements that \<open>document.querySelectorAll(selector)\<close> returns (\<open>None\<close> when it throws, as it
  does on a selector that does not parse), and whether \<open>chrome.runtime.sendMessage\<close> is
  there to be called.
\<close>

record dom_env =
  toLowerCase :: "string \<Rightarrow> string"
  trim :: "string \<Rightarrow> string"
  querySelectorAll_length :: "string \<Rightarrow> nat option"
  runtime_ok :: bool

text \<open>The count of the inner \<open>while (sibling)\<close> loop.\<close>

definition siblingIndex :: "node \<Rightarrow> nat" where
  "siblingIndex n = 1 + length (filter (\<lambda>t. t = tagName n) (previousTags n))"

definition nth_of_type_step :: "dom_env \<Rightarrow> node \<Rightarrow> string" where
  "nth_of_type_step env n =
     '' > '' @ toLowerCase env (tagName n) @ '':nth-of-type('' @ decimal (siblingIndex n) @ '')''"

subsection \<open>The pointer-down content script\<close>

text \<open>\<open>getSelector\<close>: the loop over \<open>stableAttrs\<close>, whose \<open>try\<close> swallows what
  \<open>querySelectorAll\<close> throws, and the loop that walks up from the element.\<close>

definition stableAttrs :: "string list" where
  "stableAttrs = [''data-testid'', ''name'', ''aria-label'', ''placeholder'', ''title'', ''alt'']"

fun attr_selector :: "dom_env \<Rightarrow> node \<Rightarrow> string list \<Rightarrow> string option" where
  "attr_selector env n [] = None"
| "attr_selector env n (attr # rest) =
     (case getAttribute n attr of
        None \<Rightarrow> attr_selector env n rest
      | Some attrValue \<Rightarrow>
          if attrValue = [] then attr_selector env n rest
          else
            (let selector =
                   toLowerCase env (tagName n) @ ''['' @ attr @ ''='' @ [CHR 0x22]
                   @ CSS_escape attrValue @ [CHR 0x22] @ '']''
             in if querySelectorAll_length env selector = Some 1 then Some selector
                else attr_selector env n rest))"

fun path_loop :: "dom_env \<Rightarrow> dom_element \<Rightarrow> string \<Rightarrow> string" where
  "path_loop env (Element n None) path = path"
| "path_loop env (Element n (Some p)) path =
     (if toLowerCase env (tagName n) = ''body'' then path
      else if node_id n \<noteq> [] then ''#'' @ CSS_escape (node_id n) @ path
      else path_loop env p (nth_of_type_step env n @ path))"

definition getSelector :: "dom_env \<Rightarrow> dom_element option \<Rightarrow> string" where
  "getSelector env element =
     (case element of
        None \<Rightarrow> []
      | Some el \<Rightarrow>
          if node_id (node_of el) \<noteq> [] then ''#'' @ CSS_escape (node_id (node_of el))
          else
            (case attr_selector env (node_of el) stableAttrs of
               Some selector \<Rightarrow> selector
             | None \<Rightarrow> trim env (''body'' @ path_loop env el [])))"

text \<open>\<open>sendMessage\<close> of the content script: the \<open>recordAction\<close> messages that leave the
  frame.\<close>

definition sendMessage :: "dom_env \<Rightarrow> action \<Rightarrow> action list" where
  "sendMessage env a = (if runtime_ok env then [a] else [])"

text \<open>\<open>recordInputChange\<close> with the map \<open>lastRecordedValue\<close>, keyed by the element: the
  messages sent and the map afterwards.\<close>

type_synonym last_recorded = "nat \<rightharpoonup> string"

definition settled_value :: "node \<Rightarrow> string option" where
  "settled_value n = (if isContentEditable n then Some (innerText n) else el_value n)"

definition recordInputChange ::
  "dom_env \<Rightarrow> last_recorded \<Rightarrow> dom_element option \<Rightarrow> action list \<times> last_recorded" where
  "recordInputChange env lrv target =
     (case target of
        None \<Rightarrow> ([], lrv)
      | Some el \<Rightarrow>
          (case settled_value (node_of el) of
             None \<Rightarrow> ([], lrv)
           | Some v \<Rightarrow>
               if lrv (el_ident (node_of el)) \<noteq> Some v
               then (sendMessage env (ChangeAction (getSelector env (Some el)) v),
                     lrv(el_ident (node_of el) \<mapsto> v))
               else ([], lrv)))"

text \<open>\<open>onMouseDown\<close>, given \<open>event.composedPath()[0]\<close> and \<open>document.activeElement\<close>.\<close>

definition onMouseDown ::
  "dom_env \<Rightarrow> last_recorded \<Rightarrow> dom_element \<Rightarrow> dom_element option
     \<Rightarrow> action list \<times> last_recorded" where
  "onMouseDown env lrv target activeElement =
     (let (flushed, lrv') =
            (case activeElement of
               None \<Rightarrow> ([], lrv)
             | Some a \<Rightarrow>
                 if el_ident (node_of a) \<noteq> el_ident (node_of target)
                    \<and> (isContentEditable (node_of a)
                        \<or> tagName (node_of a) \<in> set [''INPUT'', ''TEXTAREA''])
                 then recordInputChange env lrv (Some a)
                 else ([], lrv))
      in (flushed
          @ sendMessage env
              (ClickAction (getSelector env (Some target))
                 (take 50 (trim env (innerText (node_of target))))),
          lrv'))"

text \<open>
  The events of a page that matter to an observer, each with the elements as they are
  when it fires: an \<open>input\<close> event on an element that was just edited, a \<open>blur\<close> of an
  element, and a \<open>mousedown\<close> with its target and the focused element. The script
  registers one listener, for \<open>mousedown\<close>.
\<close>

datatype page_event =
    InputEvent dom_element
  | BlurEvent dom_element
  | MouseDown dom_element "dom_element option"

fun observer_step ::
  "dom_env \<Rightarrow> last_recorded \<Rightarrow> page_event \<Rightarrow> action list \<times> last_recorded" where
  "observer_step env lrv (MouseDown target activeElement) =
     onMouseDown env lrv target activeElement"
| "observer_step env lrv ev = ([], lrv)"

fun observe ::
  "dom_env \<Rightarrow> last_recorded \<Rightarrow> page_event list \<Rightarrow> action list \<times> last_recorded" where
  "observe env lrv [] = ([], lrv)"
| "observe env lrv (ev # evs) =
     (let (sent, lrv') = observer_step env lrv ev;
          (sent', lrv'') = observe env lrv' evs
      in (sent @ sent', lrv''))"

subsection \<open>The debouncing content script (content_script.js)\<close>

text \<open>Its \<open>getSelector\<close> escapes nothing and catches nothing: what \<open>querySelectorAll\<close> throws
  leaves the function, and the handler that called it.\<close>

datatype js_error = SyntaxError

definition uniqueAttrs :: "string list" where
  "uniqueAttrs = [''data-testid'', ''name'']"

fun attr_selector_cs :: "dom_env \<Rightarrow> node \<Rightarrow> string list \<Rightarrow> js_error + string option" where
  "attr_selector_cs env n [] = Inr None"
| "attr_selector_cs env n (attr # rest) =
     (case getAttribute n attr of
        None \<Rightarrow> attr_selector_cs env n rest
      | Some attrValue \<Rightarrow>
          if attrValue = [] then attr_selector_cs env n rest
          else
            (let selector =
                   toLowerCase env (tagName n) @ ''['' @ attr @ ''='' @ [CHR 0x22]
                   @ attrValue @ [CHR 0x22] @ '']''
             in case querySelectorAll_length env selector of
                  None \<Rightarrow> Inl SyntaxError
                | Some c \<Rightarrow>
                    if c = 1 then Inr (Some selector) else attr_selector_cs env n rest))"

fun path_loop_cs :: "dom_env \<Rightarrow> dom_element \<Rightarrow> string \<Rightarrow> string" where
  "path_loop_cs env (Element n None) path = path"
| "path_loop_cs env (Element n (Some p)) path =
     (if toLowerCase env (tagName (node_of p)) = ''body'' then nth_of_type_step env n @ path
      else path_loop_cs env p (nth_of_type_step env n @ path))"

definition getSelector_cs :: "dom_env \<Rightarrow> dom_element option \<Rightarrow> js_error + string" where
  "getSelector_cs env element =
     (case element of
        None \<Rightarrow> Inr []
      | Some el \<Rightarrow>
          if node_id (node_of el) \<noteq> [] then Inr (''#'' @ node_id (node_of el))
          else
            (case attr_selector_cs env (node_of el) uniqueAttrs of
               Inl e \<Rightarrow> Inl e
             | Inr (Some selector) \<Rightarrow> Inr selector
             | Inr None \<Rightarrow> Inr (trim env (''body '' @ path_loop_cs env el []))))"

text \<open>\<open>recordInputChange\<close> of this script sends \<open>target.value\<close> as it is, every time it is
  called. (An \<open>INPUT\<close>, \<open>TEXTAREA\<close> or \<open>SELECT\<close> has a \<open>value\<close>; the empty string stands for a
  missing one.)\<close>

definition recordInputChange_cs ::
  "dom_env \<Rightarrow> dom_element option \<Rightarrow> js_error + action list" where
  "recordInputChange_cs env target =
     (case target of
        None \<Rightarrow> Inr []
      | Some el \<Rightarrow>
          (case getSelector_cs env (Some el) of
             Inl e \<Rightarrow> Inl e
           | Inr sel \<Rightarrow>
               Inr (sendMessage env
                      (ChangeAction sel
                         (case el_value (node_of el) of None \<Rightarrow> [] | Some v \<Rightarrow> v)))))"

definition clickableTags :: "string list" where
  "clickableTags = [''A'', ''BUTTON'', ''INPUT'', ''TEXTAREA'', ''SELECT'', ''LI'', ''SUMMARY'']"

definition clickableRoles :: "string list" where
  "clickableRoles =
     [''button'', ''link'', ''menuitem'', ''tab'', ''option'', ''checkbox'', ''radio'', ''switch'']"

text \<open>The loop of \<open>isValidClickTarget\<close> over at most three ancestors.\<close>

fun clickable_ancestor :: "nat \<Rightarrow> dom_element option \<Rightarrow> bool" where
  "clickable_ancestor 0 parent = False"
| "clickable_ancestor (Suc i) None = False"
| "clickable_ancestor (Suc i) (Some (Element n p)) =
     (if tagName n \<in> set clickableTags
         \<or> (case getAttribute n ''role'' of
               None \<Rightarrow> False
             | Some r \<Rightarrow> r \<noteq> [] \<and> r \<in> set clickableRoles)
      then True
      else clickable_ancestor i p)"

definition isValidClickTarget :: "dom_env \<Rightarrow> dom_element option \<Rightarrow> bool" where
  "isValidClickTarget env element =
     (case element of
        None \<Rightarrow> False
      | Some el \<Rightarrow>
          if tagName (node_of el) \<in> set clickableTags then True
          else if (case getAttribute (node_of el) ''role'' of
                     None \<Rightarrow> False
                   | Some r \<Rightarrow> r \<noteq> [] \<and> toLowerCase env r \<in> set clickableRoles)
          then True
          else if getAttribute (node_of el) ''onclick'' \<noteq> None
                  \<or> getAttribute (node_of el) ''jsaction'' \<noteq> None
          then True
          else clickable_ancestor 3 (parentElement el))"

text \<open>
  The state of \<open>debounce(recordInputChange, 500)\<close>: the time at which its pending
  \<open>setTimeout\<close> runs and the argument it will pass, if one is pending. \<open>handleInput\<close>
  replaces it; \<open>handleBlur\<close> and \<open>handleClick\<close> call \<open>recordInputChange\<close> itself and leave
  it alone. A handler that throws has sent what it sent before.
\<close>

type_synonym debounce_state = "(int \<times> dom_element) option"

definition editable_tags :: "string list" where
  "editable_tags = [''INPUT'', ''TEXTAREA'', ''SELECT'']"

definition sent_or_thrown :: "js_error + action list \<Rightarrow> action list" where
  "sent_or_thrown r = (case r of Inl e \<Rightarrow> [] | Inr sent \<Rightarrow> sent)"

definition handleInput :: "int \<Rightarrow> debounce_state \<Rightarrow> dom_element \<Rightarrow> debounce_state" where
  "handleInput t pending target =
     (if tagName (node_of target) \<notin> set editable_tags then pending
      else Some (t + 500, target))"

definition handleBlur :: "dom_env \<Rightarrow> dom_element \<Rightarrow> action list" where
  "handleBlur env target =
     (if tagName (node_of target) \<notin> set editable_tags then []
      else sent_or_thrown (recordInputChange_cs env (Some target)))"

text \<open>\<open>handleClick\<close>, given \<open>event.target\<close>, \<open>document.activeElement\<close> and whether \<open>event.view\<close>
  is a window that is not an extension page.\<close>

definition handleClick ::
  "dom_env \<Rightarrow> dom_element \<Rightarrow> dom_element option \<Rightarrow> bool \<Rightarrow> action list" where
  "handleClick env target activeElement view_ok =
     (case (case activeElement of
              None \<Rightarrow> Inr []
            | Some a \<Rightarrow>
                if tagName (node_of a) \<in> set [''INPUT'', ''TEXTAREA'']
                   \<and> el_ident (node_of a) \<noteq> el_ident (node_of target)
                then recordInputChange_cs env (Some a)
                else Inr []) of
        Inl e \<Rightarrow> []
      | Inr flushed \<Rightarrow>
          flushed @
          (if \<not> view_ok then []
           else if \<not> isValidClickTarget env (Some target) then []
           else
             (case getSelector_cs env (Some target) of
                Inl e \<Rightarrow> []
              | Inr sel \<Rightarrow>
                  sendMessage env
                    (ClickAction sel
                       (if innerText (node_of target) = [] then []
                        else take 50 (trim env (innerText (node_of target))))))))"

text \<open>
  The events of a page for this script, which listens to \<open>click\<close>, \<open>input\<close> and \<open>blur\<close>;
  \<open>Idle\<close> is a moment at which no event fires. Each comes with the time at which it
  happens; a pending timeout that is due by then runs first.
\<close>

datatype cs_event =
    CsInput dom_element
  | CsBlur dom_element
  | CsClick dom_element "dom_element option" bool
  | Idle

fun cs_handle :: "dom_env \<Rightarrow> int \<Rightarrow> debounce_state \<Rightarrow> cs_event \<Rightarrow> action list \<times> debounce_state" where
  "cs_handle env t pending (CsInput target) = ([], handleInput t pending target)"
| "cs_handle env t pending (CsBlur target) = (handleBlur env target, pending)"
| "cs_handle env t pending (CsClick target activeElement view_ok) =
     (handleClick env target activeElement view_ok, pending)"
| "cs_handle env t pending Idle = ([], pending)"

definition run_due_timeout ::
  "dom_env \<Rightarrow> int \<Rightarrow> debounce_state \<Rightarrow> action list \<times> debounce_state" where
  "run_due_timeout env t pending =
     (case pending of
        None \<Rightarrow> ([], None)
      | Some (due, target) \<Rightarrow>
          if due \<le> t then (sent_or_thrown (recordInputChange_cs env (Some target)), None)
          else ([], pending))"

fun cs_run ::
  "dom_env \<Rightarrow> debounce_state \<Rightarrow> (int \<times> cs_event) list \<Rightarrow> action list" where
  "cs_run env pending [] = []"
| "cs_run env pending ((t, ev) # evs) =
     (let (fired, pending1) = run_due_timeout env t pending;
          (sent, pending2) = cs_handle env t pending1 ev
      in fired @ sent @ cs_run env pending2 evs)"

section \<open>Example sessions\<close>

text \<open>A recording bound to tab 1 that has just started, an idle controller with one stored
  flow, and three reports: two of tab 1 with one of tab 2 between them.\<close>

definition recording_tab1 :: bg_state where
  "recording_tab1 =
     \<lparr>isRecording = True, recordedSteps = [Goto ''u'' 0], lastActionTimestamp = 0,
      recordingTabId = Some 1, storage_flows = None, resetTimers = 0, tasks = []\<rparr>"

definition idle_one_flow :: bg_state where
  "idle_one_flow =
     \<lparr>isRecording = False, recordedSteps = [], lastActionTimestamp = 0,
      recordingTabId = None, storage_flows = Some [''f'' \<mapsto> [Goto ''u'' 0]],
      resetTimers = 0, tasks = []\<rparr>"

definition report_of :: "int \<Rightarrow> action \<Rightarrow> nat \<Rightarrow> nat \<Rightarrow> report" where
  "report_of t a tb f =
     \<lparr>report_at = t, report_action = a,
      report_from = \<lparr>sender_tab = Some tb, sender_frameId = f\<rparr>\<rparr>"

definition click_a :: report where
  "click_a = report_of 50 (ClickAction ''#a'' ''A'') 1 0"

definition change_other_tab :: report where
  "change_other_tab = report_of 60 (ChangeAction ''#x'' ''v'') 2 0"

definition change_b :: report where
  "change_b = report_of 300 (ChangeAction ''#b'' ''hi'') 1 3"

definition panel :: sender where
  "panel = \<lparr>sender_tab = None, sender_frameId = 0\<rparr>"

definition at_zero :: env where
  "at_zero = \<lparr>now = 0, activeTab = None\<rparr>"

text \<open>An interleaving of two handlers: a delete of \<open>b\<close> starts and has the storage read;
  then a save under \<open>a\<close> runs from its message to its write; then the delete goes on.\<close>

definition save_a_inside_delete_b :: "(env \<times> bg_event) list" where
  "save_a_inside_delete_b =
     [(at_zero, Message (DeleteFlow ''b'') panel), (at_zero, Advance 0),
      (at_zero, Message (StopRecordingAndSave ''a'') panel),
      (at_zero, Advance 1), (at_zero, Advance 1), (at_zero, Advance 1)]"

definition delete_b_goes_on :: "(env \<times> bg_event) list" where
  "delete_b_goes_on = [(at_zero, Advance 0), (at_zero, Advance 0)]"

section \<open>Example pages and flows\<close>

text \<open>Elements on which \<open>click()\<close> and the assignment of \<open>value\<close> work, and a file input,
  on which the assignment of a file name throws.\<close>

definition html_element :: "nat \<Rightarrow> string option \<Rightarrow> bool \<Rightarrow> element" where
  "html_element i v editable =
     \<lparr>el_ident = i, el_value = v, isContentEditable = editable, click_error = None,
      set_value_error = (\<lambda>s. None)\<rparr>"

definition file_input :: element where
  "file_input =
     \<lparr>el_ident = 5, el_value = Some [], isContentEditable = False, click_error = None,
      set_value_error =
        (\<lambda>s. if s = [] then None
             else Some ''Failed to set the 'value' property on 'HTMLInputElement': This input element accepts a filename, which may only be programmatically set to the empty string.'')\<rparr>"

text \<open>Pages whose callbacks run on time, with one element that is there from the
  start under one selector, or with none.\<close>

definition page_with :: "string \<Rightarrow> element \<Rightarrow> page" where
  "page_with sel el =
     \<lparr>callback_time = (\<lambda>delay k. delay * int k),
      querySelector_at = (\<lambda>t s. if s = sel then Found el else NotFound)\<rparr>"

definition empty_page :: page where
  "empty_page =
     \<lparr>callback_time = (\<lambda>delay k. delay * int k), querySelector_at = (\<lambda>t s. NotFound)\<rparr>"

text \<open>A page whose callbacks run 5 ms late and in which \<open>#late\<close> matches from 7003 ms
  after the call on.\<close>

definition late_page :: page where
  "late_page =
     \<lparr>callback_time = (\<lambda>delay k. delay * int k + 5),
      querySelector_at =
        (\<lambda>t s. if 7003 \<le> t \<and> s = ''#late'' then Found (html_element 7 None False)
               else NotFound)\<rparr>"

text \<open>A page in which every query throws, as for a selector that does not parse.\<close>

definition throwing_page :: page where
  "throwing_page =
     \<lparr>callback_time = (\<lambda>delay k. delay * int k), querySelector_at = (\<lambda>t s. QueryThrows)\<rparr>"

text \<open>A stored flow whose click targets an element that the page does not have, and a
  browser in which the tab loads and the frame answers every step as its executor does
  on \<open>empty_page\<close>.\<close>

definition flow_missing :: "step list" where
  "flow_missing =
     [Goto ''https://x/form'' 0, Wait 150, Click ''#missing'' ''Go'' 0,
      Change ''#name'' ''Ada'' 0]"

definition browser_missing :: browser where
  "browser_missing =
     \<lparr>created_tab = Inr 5, load_completes = True,
      dispatch_result =
        (\<lambda>k. case on_executeSingleStep empty_page (tl flow_missing ! k) of
               None \<Rightarrow> Resolves None
             | Some (effs, reply) \<Rightarrow> Resolves (Some reply))\<rparr>"

text \<open>A browser in which the tab loads and no frame answers: every \<open>sendMessage\<close> resolves
  with \<open>undefined\<close>.\<close>

definition browser_silent :: browser where
  "browser_silent =
     \<lparr>created_tab = Inr 5, load_completes = True, dispatch_result = (\<lambda>k. Resolves None)\<rparr>"

section \<open>Example elements\<close>

text \<open>A page \<open>html > body > form > (input#name, button)\<close> in which \<open>toLowerCase\<close> and
  \<open>trim\<close> have nothing to change in the strings they are given, except that the tag
  names are lowered.\<close>

definition lower_tags :: "string \<Rightarrow> string" where
  "lower_tags s =
     (if s = ''BODY'' then ''body'' else if s = ''FORM'' then ''form''
      else if s = ''INPUT'' then ''input'' else if s = ''BUTTON'' then ''button''
      else if s = ''HTML'' then ''html'' else s)"

definition plain_env :: dom_env where
  "plain_env =
     \<lparr>toLowerCase = lower_tags, trim = (\<lambda>s. s),
      querySelectorAll_length = (\<lambda>s. Some 0), runtime_ok = True\<rparr>"

definition plain_node :: "nat \<Rightarrow> string \<Rightarrow> string \<Rightarrow> string option \<Rightarrow> string \<Rightarrow> node" where
  "plain_node i tag ident v txt =
     \<lparr>el_ident = i, el_value = v, isContentEditable = False, click_error = None,
      set_value_error = (\<lambda>s. None), tagName = tag, node_id = ident,
      getAttribute = Map.empty, previousTags = [], innerText = txt\<rparr>"

definition html_root :: dom_element where
  "html_root = Element (plain_node 10 ''HTML'' [] None []) None"

definition body_el :: dom_element where
  "body_el = Element (plain_node 11 ''BODY'' [] None []) (Some html_root)"

definition form_el :: dom_element where
  "form_el = Element (plain_node 12 ''FORM'' [] None []) (Some body_el)"

definition name_input :: "string \<Rightarrow> dom_element" where
  "name_input v = Element (plain_node 13 ''INPUT'' ''name'' (Some v) []) (Some form_el)"

definition send_button :: dom_element where
  "send_button =
     Element ((plain_node 14 ''BUTTON'' [] None ''Send'')\<lparr>previousTags := [''INPUT'']\<rparr>)
       (Some form_el)"


section \<open>Properties of the recording controller\<close>

lemma deliver_discarded: "\<not> accepted s r \<Longrightarrow> deliver s r = s"
  by (auto simp: deliver_def accepted_def on_message_def content_listener_def
      panel_listener_def split: option.splits)

lemma deliver_accepted:
  "accepted s r \<Longrightarrow>
     deliver s r =
       s\<lparr>recordedSteps :=
            (if report_at r - lastActionTimestamp s > 100
             then recordedSteps s @ [Wait (report_at r - lastActionTimestamp s)]
             else recordedSteps s) @ [report_step r],
         lastActionTimestamp := report_at r\<rparr>"
  by (auto simp: deliver_def accepted_def on_message_def content_listener_def
      panel_listener_def handleRecordAction_def report_step_def Let_def
      split: option.splits)

lemma accepted_deliver [simp]: "accepted (deliver s r) r' = accepted s r'"
proof (cases "accepted s r")
  case True
  show ?thesis
    unfolding deliver_accepted [OF True] by (simp add: accepted_def)
next
  case False
  then show ?thesis by (simp add: deliver_discarded)
qed

lemma deliver_all_discarded:
  "\<forall>r \<in> set rs. \<not> accepted s r \<Longrightarrow> deliver_all s rs = s"
  unfolding deliver_all_def
  by (induction rs arbitrary: s) (simp_all add: deliver_discarded)

lemma deliver_all_append: "deliver_all s (xs @ ys) = deliver_all (deliver_all s xs) ys"
  by (simp add: deliver_all_def)

lemma accepted_deliver_all [simp]: "accepted (deliver_all s rs) r = accepted s r"
  unfolding deliver_all_def
  by (induction rs arbitrary: s) simp_all

lemma is_wait_report_step [simp]: "\<not> is_wait (report_step r)"
  by (cases "report_action r") (simp_all add: report_step_def)

lemma deliver_all_filter:
  "deliver_all s (filter (accepted s) rs) = deliver_all s rs"
proof (induction rs arbitrary: s)
  case Nil
  show ?case by simp
next
  case (Cons r rs)
  have same: "filter (accepted (deliver s r)) rs = filter (accepted s) rs"
    by (rule filter_cong) simp_all
  show ?case
  proof (cases "accepted s r")
    case True
    with Cons [of "deliver s r"] same show ?thesis
      by (simp add: deliver_all_def)
  next
    case False
    with Cons [of s] show ?thesis
      by (simp add: deliver_all_def deliver_discarded)
  qed
qed

lemma action_steps_deliver_all:
  "filter (\<lambda>x. \<not> is_wait x) (recordedSteps (deliver_all s rs)) =
     filter (\<lambda>x. \<not> is_wait x) (recordedSteps s) @ map report_step (filter (accepted s) rs)"
proof (induction rs arbitrary: s)
  case Nil
  show ?case by (simp add: deliver_all_def)
next
  case (Cons r rs)
  have same: "filter (accepted (deliver s r)) rs = filter (accepted s) rs"
    by (rule filter_cong) simp_all
  have unfold: "deliver_all s (r # rs) = deliver_all (deliver s r) rs"
    by (simp add: deliver_all_def)
  show ?case
  proof (cases "accepted s r")
    case True
    then show ?thesis
      unfolding unfold Cons [of "deliver s r"] same
      by (simp add: deliver_accepted)
  next
    case False
    then show ?thesis
      unfolding unfold Cons [of "deliver s r"] same
      by (simp add: deliver_discarded)
  qed
qed

text \<open>
  C3. A \<open>recordAction\<close> report changes the controller only while recording and only when
  it comes from the bound tab: delivered while idle, any sequence of reports leaves the
  state as it was; a single report that changes the recorded steps was sent by the bound
  tab during a recording; and when tab \<open>A\<close> is bound, the action steps recorded from any
  interleaving of reports are the steps that were there followed by the reports of \<open>A\<close>,
  in order, and nothing of any other tab.
\<close>

theorem record_action_single_tab_binding:
  "(\<not> isRecording s \<longrightarrow> deliver_all s rs = s)
   \<and> (recordedSteps (deliver s r) \<noteq> recordedSteps s \<longrightarrow>
        isRecording s \<and> (\<exists>A. recordingTabId s = Some A \<and> sender_tab (report_from r) = Some A))
   \<and> (isRecording s \<and> recordingTabId s = Some A \<longrightarrow>
        deliver_all s rs =
          deliver_all s (filter (\<lambda>r. sender_tab (report_from r) = Some A) rs)
        \<and> filter (\<lambda>x. \<not> is_wait x) (recordedSteps (deliver_all s rs)) =
            filter (\<lambda>x. \<not> is_wait x) (recordedSteps s)
              @ map report_step (filter (\<lambda>r. sender_tab (report_from r) = Some A) rs))"
proof (intro conjI impI)
  assume "\<not> isRecording s"
  then have "\<forall>r \<in> set rs. \<not> accepted s r" by (simp add: accepted_def)
  then show "deliver_all s rs = s" by (rule deliver_all_discarded)
next
  assume changed: "recordedSteps (deliver s r) \<noteq> recordedSteps s"
  have acc: "accepted s r"
  proof (rule ccontr)
    assume "\<not> accepted s r"
    then have "deliver s r = s" by (rule deliver_discarded)
    with changed show False by simp
  qed
  from acc show "isRecording s" by (simp add: accepted_def)
  from acc show "\<exists>A. recordingTabId s = Some A \<and> sender_tab (report_from r) = Some A"
    by (cases "recordingTabId s") (auto simp: accepted_def)
next
  assume rec: "isRecording s \<and> recordingTabId s = Some A"
  then have eq: "accepted s = (\<lambda>r. sender_tab (report_from r) = Some A)"
    by (auto simp: accepted_def fun_eq_iff)
  from deliver_all_filter [of s rs]
  show "deliver_all s rs =
          deliver_all s (filter (\<lambda>r. sender_tab (report_from r) = Some A) rs)"
    unfolding eq by simp
  from action_steps_deliver_all [of s rs]
  show "filter (\<lambda>x. \<not> is_wait x) (recordedSteps (deliver_all s rs)) =
          filter (\<lambda>x. \<not> is_wait x) (recordedSteps s)
            @ map report_step (filter (\<lambda>r. sender_tab (report_from r) = Some A) rs)"
    unfolding eq .
qed

lemmas example_session_defs =
  deliver_all_def deliver_def on_message_def content_listener_def panel_listener_def
  handleRecordAction_def report_step_def recording_tab1_def idle_one_flow_def report_of_def
  click_a_def change_other_tab_def change_b_def panel_def at_zero_def Let_def

theorem record_action_single_tab_binding_witness:
  "deliver_all idle_one_flow [click_a, change_other_tab, change_b] = idle_one_flow
   \<and> isRecording recording_tab1 \<and> recordingTabId recording_tab1 = Some 1
   \<and> recordedSteps (deliver recording_tab1 click_a) \<noteq> recordedSteps recording_tab1
   \<and> filter (\<lambda>x. \<not> is_wait x)
        (recordedSteps (deliver_all recording_tab1 [click_a, change_other_tab, change_b])) =
      [Goto ''u'' 0, Click ''#a'' ''A'' 0, Change ''#b'' ''hi'' 3]"
  using
    record_action_single_tab_binding
      [of idle_one_flow "[click_a, change_other_tab, change_b]" click_a 1]
    record_action_single_tab_binding
      [of recording_tab1 "[click_a, change_other_tab, change_b]" click_a 1]
  by (simp add: example_session_defs)

text \<open>
  C2. Two reports of the bound tab accepted one after the other at times \<open>t0\<close> and \<open>t1\<close>
  (whatever the other tabs send in between, which is discarded): the step of the second
  follows the step of the first with exactly one \<open>Wait (t1 - t0)\<close> between them when
  \<open>t1 - t0 > 100\<close>, and directly when \<open>t1 - t0 \<le> 100\<close>.
\<close>

theorem record_action_wait_synthesis:
  assumes "isRecording s" and "recordingTabId s = Some A"
    and "sender_tab (report_from r0) = Some A"
    and "sender_tab (report_from r1) = Some A"
    and "\<forall>d \<in> set ds. sender_tab (report_from d) \<noteq> Some A"
  shows "recordedSteps (deliver_all s (r0 # ds @ [r1])) =
           recordedSteps s
             @ (if report_at r0 - lastActionTimestamp s > 100
                then [Wait (report_at r0 - lastActionTimestamp s)] else [])
             @ [report_step r0]
             @ (if report_at r1 - report_at r0 > 100
                then [Wait (report_at r1 - report_at r0)] else [])
             @ [report_step r1]"
proof -
  from assms have a0: "accepted s r0" and a1: "accepted s r1"
    by (simp_all add: accepted_def)
  let ?s0 = "deliver s r0"
  from assms(2,5) have "\<forall>d \<in> set ds. \<not> accepted s d"
    by (auto simp: accepted_def)
  then have "\<forall>d \<in> set ds. \<not> accepted ?s0 d"
    by simp
  then have ds: "deliver_all ?s0 ds = ?s0" by (rule deliver_all_discarded)
  have "deliver_all s (r0 # ds @ [r1]) = deliver (deliver_all ?s0 ds) r1"
    by (simp add: deliver_all_def)
  also have "\<dots> = deliver ?s0 r1" by (simp only: ds)
  finally have main:
    "recordedSteps (deliver_all s (r0 # ds @ [r1])) = recordedSteps (deliver ?s0 r1)"
    by simp
  have acc1: "accepted ?s0 r1" using a1 by simp
  have e1: "recordedSteps (deliver ?s0 r1) =
              (if report_at r1 - lastActionTimestamp ?s0 > 100
               then recordedSteps ?s0 @ [Wait (report_at r1 - lastActionTimestamp ?s0)]
               else recordedSteps ?s0) @ [report_step r1]"
    by (subst deliver_accepted [OF acc1]) simp
  have l0: "lastActionTimestamp ?s0 = report_at r0"
    by (subst deliver_accepted [OF a0]) simp
  have s0: "recordedSteps ?s0 =
              (if report_at r0 - lastActionTimestamp s > 100
               then recordedSteps s @ [Wait (report_at r0 - lastActionTimestamp s)]
               else recordedSteps s) @ [report_step r0]"
    by (subst deliver_accepted [OF a0]) simp
  show ?thesis
    unfolding main e1 l0 s0 by simp
qed

theorem record_action_wait_synthesis_witness:
  "isRecording recording_tab1 \<and> recordingTabId recording_tab1 = Some 1
   \<and> sender_tab (report_from click_a) = Some 1
   \<and> sender_tab (report_from change_b) = Some 1
   \<and> sender_tab (report_from change_other_tab) \<noteq> Some 1
   \<and> recordedSteps (deliver_all recording_tab1 (click_a # [change_other_tab] @ [change_b])) =
      [Goto ''u'' 0, Click ''#a'' ''A'' 0, Wait 250, Change ''#b'' ''hi'' 3]"
  using record_action_wait_synthesis
      [of recording_tab1 1 click_a change_b "[change_other_tab]"]
  by (simp add: example_session_defs)

section \<open>Properties of the stored flows\<close>

lemma bg_run_append: "bg_run s (xs @ ys) = bg_run (bg_run s xs) ys"
  by (induction xs arbitrary: s) auto

lemma tasks_resetState [simp]: "tasks (resetState s) = tasks s"
  by (simp add: resetState_def)

lemma task_step_tasks [simp]: "tasks (snd (task_step e t s)) = tasks s"
  by (cases t) (auto split: option.splits)

lemma tasks_advance:
  "tasks (advance e j s) =
     (if j < length (tasks s) then (tasks s)[j := fst (task_step e (tasks s ! j) s)]
      else tasks s)"
  by (simp add: advance_def split_beta)

lemma tasks_on_message:
  "tasks (on_message e rq sd s) = tasks s \<or> (\<exists>t. tasks (on_message e rq sd s) = tasks s @ [t])"
proof (cases "sender_tab sd")
  case None
  then show ?thesis
    by (cases rq)
       (auto simp: on_message_def content_listener_def panel_listener_def
          handleStartRecording_def handleStopRecordingAndSave_def
          handleCancelRecording_def handleDeleteFlow_def)
next
  case (Some tid)
  then show ?thesis
    by (cases rq)
       (auto simp: on_message_def content_listener_def panel_listener_def
          handleRecordAction_def Let_def)
qed

lemma task_kept_step:
  assumes "i < length (tasks s)" and "ev \<noteq> Advance i"
  shows "i < length (tasks (bg_step e ev s)) \<and> tasks (bg_step e ev s) ! i = tasks s ! i"
proof (cases ev)
  case (Message rq sd)
  with assms(1) tasks_on_message [of e rq sd s] show ?thesis
    by (auto simp: nth_append)
next
  case (TabRemoved tid)
  with assms(1) show ?thesis by (simp add: handleCancelRecording_def)
next
  case ResetTimerFired
  with assms(1) show ?thesis by simp
next
  case (Advance j)
  with assms have "j \<noteq> i" by simp
  with Advance assms(1) show ?thesis by (simp add: tasks_advance)
qed

lemma task_kept_run:
  assumes "i < length (tasks s)" and "\<forall>x \<in> set evs. snd x \<noteq> Advance i"
  shows "i < length (tasks (bg_run s evs)) \<and> tasks (bg_run s evs) ! i = tasks s ! i"
  using assms
proof (induction evs arbitrary: s)
  case Nil
  then show ?case by simp
next
  case (Cons x evs)
  obtain e ev where x: "x = (e, ev)" by (cases x)
  with Cons.prems have "ev \<noteq> Advance i" by simp
  from task_kept_step [OF Cons.prems(1) this, of e]
  have kept: "i < length (tasks (bg_step e ev s))" "tasks (bg_step e ev s) ! i = tasks s ! i"
    by simp_all
  from Cons.IH [OF kept(1)] Cons.prems(2) kept(2) x show ?case by simp
qed

lemma advance_task:
  "i < length (tasks s) \<Longrightarrow> tasks (advance e i s) ! i = fst (task_step e (tasks s ! i) s)"
  by (simp add: tasks_advance)

lemma advance_length [simp]: "length (tasks (advance e i s)) = length (tasks s)"
  by (simp add: tasks_advance)

lemma storage_advance:
  "i < length (tasks s) \<Longrightarrow>
     storage_flows (advance e i s) = storage_flows (snd (task_step e (tasks s ! i) s))"
  by (simp add: advance_def split_beta)

text \<open>A save or delete that has started: its task is the last of the list.\<close>

lemma request_starts_task:
  assumes "rq = StopRecordingAndSave n \<and> isRecording s \<or> rq = DeleteFlow n"
    and "sender_tab sd = None"
  shows "tasks (bg_step e (Message rq sd) s) =
           tasks s @ [if rq = DeleteFlow n then DeleteGet n else SaveGet n]"
  using assms
  by (auto simp: on_message_def content_listener_def panel_listener_def
      handleStopRecordingAndSave_def handleDeleteFlow_def)

lemma write_back:
  assumes rq: "rq = StopRecordingAndSave n \<and> isRecording s \<or> rq = DeleteFlow n"
    and sd: "sender_tab sd = None"
    and i: "i = length (tasks s)"
    and others: "\<forall>x \<in> set (evs1 @ evs2 @ evs3). snd x \<noteq> Advance i"
    and s1: "s1 = bg_run s ((e0, Message rq sd) # evs1)"
    and s3: "s3 = bg_run s1 ((e1, Advance i) # evs2)"
    and s5: "s5 = bg_run s3 ((e2, Advance i) # evs3)"
    and s6: "s6 = bg_step e3 (Advance i) s5"
  shows "loadSavedFlows s6 =
           (if rq = DeleteFlow n then delete_property (loadSavedFlows s1) n
            else set_property (loadSavedFlows s1) n (recordedSteps s3))"
proof -
  let ?t0 = "if rq = DeleteFlow n then DeleteGet n else SaveGet n"
  let ?a = "bg_step e0 (Message rq sd) s"
  from others have o1: "\<forall>x \<in> set evs1. snd x \<noteq> Advance i"
    and o2: "\<forall>x \<in> set evs2. snd x \<noteq> Advance i"
    and o3: "\<forall>x \<in> set evs3. snd x \<noteq> Advance i"
    by auto
  have a: "i < length (tasks ?a)" "tasks ?a ! i = ?t0"
    using request_starts_task [OF rq sd, of e0] i by simp_all
  have t1: "i < length (tasks s1)" "tasks s1 ! i = ?t0"
    using task_kept_run [OF a(1) o1] a(2) s1 by simp_all
  let ?b = "advance e1 i s1"
  have b: "i < length (tasks ?b)"
    "tasks ?b ! i = (if rq = DeleteFlow n then DeleteGot n (storage_flows s1)
                     else SaveGot n (storage_flows s1))"
    using t1 by (simp_all add: advance_task)
  have t3: "i < length (tasks s3)"
    "tasks s3 ! i = (if rq = DeleteFlow n then DeleteGot n (storage_flows s1)
                     else SaveGot n (storage_flows s1))"
    using task_kept_run [OF b(1) o2] b(2) s3 by simp_all
  let ?c = "advance e2 i s3"
  have c: "i < length (tasks ?c)"
    "tasks ?c ! i =
       (if rq = DeleteFlow n then DeleteSet (delete_property (loadSavedFlows s1) n)
        else SaveSet (set_property (loadSavedFlows s1) n (recordedSteps s3)))"
    using t3 by (simp_all add: advance_task loadSavedFlows_def)
  have t5: "i < length (tasks s5)"
    "tasks s5 ! i =
       (if rq = DeleteFlow n then DeleteSet (delete_property (loadSavedFlows s1) n)
        else SaveSet (set_property (loadSavedFlows s1) n (recordedSteps s3)))"
    using task_kept_run [OF c(1) o3] c(2) s5 by simp_all
  show ?thesis
    using t5 s6 by (simp add: loadSavedFlows_def storage_advance or_empty_def)
qed

lemma store_changes_at_write_back:
  assumes "loadSavedFlows (bg_step e ev t) \<noteq> loadSavedFlows t"
  shows "\<exists>j m. ev = Advance j \<and> j < length (tasks t)
           \<and> (tasks t ! j = SaveSet m \<or> tasks t ! j = DeleteSet m)
           \<and> loadSavedFlows (bg_step e ev t) = m"
proof (cases ev)
  case (Message rq sd)
  show ?thesis
  proof (cases "sender_tab sd")
    case None
    with assms Message show ?thesis
      by (cases rq)
         (auto simp: on_message_def content_listener_def panel_listener_def
            handleStartRecording_def handleStopRecordingAndSave_def
            handleCancelRecording_def handleDeleteFlow_def loadSavedFlows_def
            split: if_splits)
  next
    case (Some tid)
    with assms Message show ?thesis
      by (cases rq)
         (auto simp: on_message_def content_listener_def panel_listener_def
            handleRecordAction_def loadSavedFlows_def Let_def split: if_splits)
  qed
next
  case (TabRemoved tid)
  with assms show ?thesis
    by (auto simp: handleCancelRecording_def loadSavedFlows_def split: if_splits)
next
  case ResetTimerFired
  with assms show ?thesis
    by (auto simp: resetState_def loadSavedFlows_def split: if_splits)
next
  case (Advance j)
  show ?thesis
  proof (cases "j < length (tasks t)")
    case False
    with assms Advance show ?thesis by (simp add: advance_def)
  next
    case True
    with assms Advance show ?thesis
      by (cases "tasks t ! j")
         (auto simp: advance_def loadSavedFlows_def resetState_def or_empty_def
            split: option.splits)
  qed
qed

text \<open>
  C9, as the code has it. A save (during a recording, under a name other than
  \<open>__proto__\<close>) or a delete is a handler in stretches: its message, the browser's read of
  the storage, the stretch that builds the object to store, and the browser's write.
  Whatever other events run between them, the write replaces the stored flows by the
  flows that were read, with the name set to the steps recorded when the handler went on
  after the read (save) or with the name removed (delete). So when the stored flows are
  at the write what they were at the read, every other name keeps its steps, and a
  delete of a name that is not stored changes nothing; no branch of either handler
  fails. And the stored flows change at no other event than such a write.
\<close>

theorem flow_store_write_back:
  assumes "rq = StopRecordingAndSave n \<and> isRecording s \<and> n \<noteq> ''__proto__'' \<or> rq = DeleteFlow n"
    and "sender_tab sd = None"
    and "i = length (tasks s)"
    and "\<forall>x \<in> set (evs1 @ evs2 @ evs3). snd x \<noteq> Advance i"
    and "s1 = bg_run s ((e0, Message rq sd) # evs1)"
    and "s3 = bg_run s1 ((e1, Advance i) # evs2)"
    and "s5 = bg_run s3 ((e2, Advance i) # evs3)"
    and "s6 = bg_step e3 (Advance i) s5"
  shows "loadSavedFlows s6 =
           (if rq = DeleteFlow n then (loadSavedFlows s1)(n := None)
            else (loadSavedFlows s1)(n \<mapsto> recordedSteps s3))
         \<and> (loadSavedFlows s5 = loadSavedFlows s1 \<longrightarrow>
              (\<forall>m. m \<noteq> n \<longrightarrow> loadSavedFlows s6 m = loadSavedFlows s5 m)
              \<and> (rq = DeleteFlow n \<and> loadSavedFlows s5 n = None \<longrightarrow>
                   loadSavedFlows s6 = loadSavedFlows s5))
         \<and> (loadSavedFlows (bg_step e ev t) \<noteq> loadSavedFlows t \<longrightarrow>
              (\<exists>j m. ev = Advance j \<and> j < length (tasks t)
                 \<and> (tasks t ! j = SaveSet m \<or> tasks t ! j = DeleteSet m)
                 \<and> loadSavedFlows (bg_step e ev t) = m))"
proof -
  from assms(1) have rq: "rq = StopRecordingAndSave n \<and> isRecording s \<or> rq = DeleteFlow n"
    by blast
  from assms(1) have name: "rq \<noteq> DeleteFlow n \<Longrightarrow> n \<noteq> ''__proto__''"
    by blast
  have written: "loadSavedFlows s6 =
           (if rq = DeleteFlow n then (loadSavedFlows s1)(n := None)
            else (loadSavedFlows s1)(n \<mapsto> recordedSteps s3))"
    using write_back [OF rq assms(2-8)] name
    by (simp add: delete_property_def set_property_def)
  have unchanged: "loadSavedFlows s6 = loadSavedFlows s5"
    if "loadSavedFlows s5 = loadSavedFlows s1" "rq = DeleteFlow n" "loadSavedFlows s5 n = None"
    using that written by (auto simp: fun_eq_iff)
  from written unchanged store_changes_at_write_back [of e ev t] show ?thesis
    by auto
qed

lemmas task_run_defs =
  advance_def on_message_def content_listener_def panel_listener_def
  handleStopRecordingAndSave_def handleDeleteFlow_def handleRecordAction_def
  loadSavedFlows_def or_empty_def set_property_def delete_property_def

theorem flow_store_write_back_witness:
  "loadSavedFlows
     (bg_run recording_tab1
        [(at_zero, Message (StopRecordingAndSave ''f'') panel), (at_zero, Advance 0),
         (\<lparr>now = 50, activeTab = None\<rparr>,
          Message (RecordAction (ClickAction ''#a'' ''A''))
            \<lparr>sender_tab = Some 1, sender_frameId = 0\<rparr>),
         (at_zero, Advance 0), (at_zero, Advance 0)]) =
     [''f'' \<mapsto> [Goto ''u'' 0, Click ''#a'' ''A'' 0]]
   \<and> loadSavedFlows
       (bg_run idle_one_flow
          [(at_zero, Message (DeleteFlow ''g'') panel), (at_zero, Advance 0),
           (at_zero, Advance 0), (at_zero, Advance 0)]) =
     loadSavedFlows idle_one_flow
   \<and> loadSavedFlows
       (bg_run idle_one_flow
          [(at_zero, Message (DeleteFlow ''f'') panel), (at_zero, Advance 0),
           (at_zero, Advance 0), (at_zero, Advance 0)]) ''f'' = None"
proof -
  let ?report = "(\<lparr>now = 50, activeTab = None\<rparr>,
          Message (RecordAction (ClickAction ''#a'' ''A''))
            \<lparr>sender_tab = Some 1, sender_frameId = 0\<rparr>)"
  note save =
    flow_store_write_back
      [of "StopRecordingAndSave ''f''" "''f''" recording_tab1 panel 0 "[]" "[?report]" "[]"
          "bg_run recording_tab1 [(at_zero, Message (StopRecordingAndSave ''f'') panel)]"
          at_zero
          "bg_run recording_tab1
             [(at_zero, Message (StopRecordingAndSave ''f'') panel), (at_zero, Advance 0),
              ?report]"
          at_zero
          "bg_run recording_tab1
             [(at_zero, Message (StopRecordingAndSave ''f'') panel), (at_zero, Advance 0),
              ?report, (at_zero, Advance 0)]"
          at_zero
          "bg_run recording_tab1
             [(at_zero, Message (StopRecordingAndSave ''f'') panel), (at_zero, Advance 0),
              ?report, (at_zero, Advance 0), (at_zero, Advance 0)]"
          at_zero]
  note delete_g =
    flow_store_write_back
      [of "DeleteFlow ''g''" "''g''" idle_one_flow panel 0 "[]" "[]" "[]"
          "bg_run idle_one_flow [(at_zero, Message (DeleteFlow ''g'') panel)]"
          at_zero
          "bg_run idle_one_flow
             [(at_zero, Message (DeleteFlow ''g'') panel), (at_zero, Advance 0)]"
          at_zero
          "bg_run idle_one_flow
             [(at_zero, Message (DeleteFlow ''g'') panel), (at_zero, Advance 0),
              (at_zero, Advance 0)]"
          at_zero
          "bg_run idle_one_flow
             [(at_zero, Message (DeleteFlow ''g'') panel), (at_zero, Advance 0),
              (at_zero, Advance 0), (at_zero, Advance 0)]"
          at_zero]
  note delete_f =
    flow_store_write_back
      [of "DeleteFlow ''f''" "''f''" idle_one_flow panel 0 "[]" "[]" "[]"
          "bg_run idle_one_flow [(at_zero, Message (DeleteFlow ''f'') panel)]"
          at_zero
          "bg_run idle_one_flow
             [(at_zero, Message (DeleteFlow ''f'') panel), (at_zero, Advance 0)]"
          at_zero
          "bg_run idle_one_flow
             [(at_zero, Message (DeleteFlow ''f'') panel), (at_zero, Advance 0),
              (at_zero, Advance 0)]"
          at_zero
          "bg_run idle_one_flow
             [(at_zero, Message (DeleteFlow ''f'') panel), (at_zero, Advance 0),
              (at_zero, Advance 0), (at_zero, Advance 0)]"
          at_zero]
  have rec: "isRecording recording_tab1" "tasks recording_tab1 = []"
    "tasks idle_one_flow = []" "sender_tab panel = None"
    by (simp_all add: recording_tab1_def idle_one_flow_def panel_def)
  have read_save:
    "loadSavedFlows
       (bg_run recording_tab1 [(at_zero, Message (StopRecordingAndSave ''f'') panel)]) =
     Map.empty"
    by (simp add: task_run_defs recording_tab1_def panel_def)
  have steps:
    "recordedSteps
       (bg_run recording_tab1
          [(at_zero, Message (StopRecordingAndSave ''f'') panel), (at_zero, Advance 0),
           ?report]) = [Goto ''u'' 0, Click ''#a'' ''A'' 0]"
    by (simp add: task_run_defs recording_tab1_def panel_def Let_def)
  have read_delete:
    "loadSavedFlows (bg_run idle_one_flow [(at_zero, Message (DeleteFlow n) panel)]) =
     loadSavedFlows idle_one_flow" for n
    by (simp add: task_run_defs idle_one_flow_def panel_def)
  have before_write:
    "loadSavedFlows
       (bg_run idle_one_flow
          [(at_zero, Message (DeleteFlow n) panel), (at_zero, Advance 0),
           (at_zero, Advance 0)]) = loadSavedFlows idle_one_flow" for n
    by (simp add: task_run_defs idle_one_flow_def panel_def)
  have stored: "loadSavedFlows idle_one_flow ''g'' = None"
    by (simp add: loadSavedFlows_def or_empty_def idle_one_flow_def)
  from save rec read_save steps
  have c1: "loadSavedFlows
     (bg_run recording_tab1
        [(at_zero, Message (StopRecordingAndSave ''f'') panel), (at_zero, Advance 0),
         ?report, (at_zero, Advance 0), (at_zero, Advance 0)]) =
     [''f'' \<mapsto> [Goto ''u'' 0, Click ''#a'' ''A'' 0]]"
    by simp
  from delete_g rec read_delete [of "''g''"] before_write [of "''g''"] stored
  have c2: "loadSavedFlows
       (bg_run idle_one_flow
          [(at_zero, Message (DeleteFlow ''g'') panel), (at_zero, Advance 0),
           (at_zero, Advance 0), (at_zero, Advance 0)]) =
     loadSavedFlows idle_one_flow"
    by (simp add: fun_upd_idem)
  from delete_f rec read_delete [of "''f''"]
  have c3: "loadSavedFlows
       (bg_run idle_one_flow
          [(at_zero, Message (DeleteFlow ''f'') panel), (at_zero, Advance 0),
           (at_zero, Advance 0), (at_zero, Advance 0)]) ''f'' = None"
    by simp
  from c1 c2 c3 show ?thesis by simp
qed

text \<open>
  C9 as stated fails: a delete of \<open>b\<close> that had the storage read before a save under \<open>a\<close>
  wrote its flow, and that writes after it, removes what was stored under \<open>a\<close>.
\<close>

theorem stale_delete_counterexample:
  "loadSavedFlows (bg_run recording_tab1 save_a_inside_delete_b) ''a'' = Some [Goto ''u'' 0]
   \<and> loadSavedFlows (bg_run recording_tab1 (save_a_inside_delete_b @ delete_b_goes_on)) ''a''
       = None"
  by (simp add: save_a_inside_delete_b_def delete_b_goes_on_def task_run_defs
      recording_tab1_def panel_def at_zero_def)

section \<open>Properties of the frame executor\<close>

text \<open>The run of the callback that settles the promise: every run before it threw, or
  found nothing in time.\<close>

lemma waitForElement_poll_settles:
  assumes "k0 \<le> k"
    and "\<forall>j. k0 \<le> j \<and> j < k \<longrightarrow>
           poll pg j sel = QueryThrows \<or> poll pg j sel = NotFound \<and> elapsed pg j \<le> t"
    and "poll pg k sel = Found el \<and> y = Inr el
         \<or> poll pg k sel = NotFound \<and> t < elapsed pg k
            \<and> y = Inl (''Element not found for selector: '' @ sel)"
  shows "waitForElement_poll pg sel t k0 = Some y"
  using assms
proof (induction "k - k0" arbitrary: k0)
  case 0
  then have "k0 = k" by simp
  with "0.prems"(3) show ?case
    by (subst waitForElement_poll.simps) auto
next
  case (Suc d)
  then have lt: "k0 < k" by simp
  with Suc.prems(2) have now:
    "poll pg k0 sel = QueryThrows \<or> poll pg k0 sel = NotFound \<and> elapsed pg k0 \<le> t"
    by simp
  have "waitForElement_poll pg sel t (Suc k0) = Some y"
  proof (rule Suc.hyps(1))
    show "d = k - Suc k0" using Suc.hyps(2) by simp
    show "Suc k0 \<le> k" using lt by simp
    show "\<forall>j. Suc k0 \<le> j \<and> j < k \<longrightarrow>
           poll pg j sel = QueryThrows \<or> poll pg j sel = NotFound \<and> elapsed pg j \<le> t"
      using Suc.prems(2) by simp
    show "poll pg k sel = Found el \<and> y = Inr el
         \<or> poll pg k sel = NotFound \<and> t < elapsed pg k
            \<and> y = Inl (''Element not found for selector: '' @ sel)"
      by (rule Suc.prems(3))
  qed
  with now show ?case
    by (subst waitForElement_poll.simps) auto
qed

lemma waitForElement_poll_settled:
  assumes "waitForElement_poll pg sel t k0 = Some y"
  shows "\<exists>k\<ge>k0.
           (\<forall>j. k0 \<le> j \<and> j < k \<longrightarrow>
              poll pg j sel = QueryThrows
              \<or> poll pg j sel = NotFound \<and> elapsed pg j \<le> t)
           \<and> ((\<exists>el. poll pg k sel = Found el \<and> y = Inr el)
              \<or> poll pg k sel = NotFound \<and> t < elapsed pg k
                 \<and> y = Inl (''Element not found for selector: '' @ sel))"
proof -
  let ?P = "\<lambda>pg sel t k0 y. \<exists>k\<ge>k0.
           (\<forall>j. k0 \<le> j \<and> j < k \<longrightarrow>
              poll pg j sel = QueryThrows
              \<or> poll pg j sel = NotFound \<and> elapsed pg j \<le> t)
           \<and> ((\<exists>el. poll pg k sel = Found el \<and> y = Inr el)
              \<or> poll pg k sel = NotFound \<and> t < elapsed pg k
                 \<and> y = Inl (''Element not found for selector: '' @ sel))"
  have "?P pg sel t k0 y"
  proof (rule waitForElement_poll.raw_induct [where P = ?P, OF _ assms])
    fix f pg sel t k0 y
    assume IH: "\<And>pg sel t k0 y. f pg sel t k0 = Some y \<Longrightarrow> ?P pg sel t k0 y"
      and hyps: "(case poll pg k0 sel of
                    Found el \<Rightarrow> Some (Inr el)
                  | NotFound \<Rightarrow>
                      if t < elapsed pg k0
                      then Some (Inl (''Element not found for selector: '' @ sel))
                      else f pg sel t (Suc k0)
                  | QueryThrows \<Rightarrow> f pg sel t (Suc k0)) = Some y"
    have later: "?P pg sel t k0 y"
      if rec: "f pg sel t (Suc k0) = Some y"
        and now: "poll pg k0 sel = QueryThrows
                  \<or> poll pg k0 sel = NotFound \<and> elapsed pg k0 \<le> t"
    proof -
      from IH [OF rec] obtain k where k: "Suc k0 \<le> k"
        "\<forall>j. Suc k0 \<le> j \<and> j < k \<longrightarrow>
                poll pg j sel = QueryThrows
                \<or> poll pg j sel = NotFound \<and> elapsed pg j \<le> t"
        "(\<exists>el. poll pg k sel = Found el \<and> y = Inr el)
                \<or> poll pg k sel = NotFound \<and> t < elapsed pg k
                   \<and> y = Inl (''Element not found for selector: '' @ sel)"
        by blast
      have "\<forall>j. k0 \<le> j \<and> j < k \<longrightarrow>
                poll pg j sel = QueryThrows
                \<or> poll pg j sel = NotFound \<and> elapsed pg j \<le> t"
      proof (intro allI impI)
        fix j assume j: "k0 \<le> j \<and> j < k"
        show "poll pg j sel = QueryThrows
                \<or> poll pg j sel = NotFound \<and> elapsed pg j \<le> t"
        proof (cases "j = k0")
          case True
          with now show ?thesis by simp
        next
          case False
          with j have "Suc k0 \<le> j \<and> j < k" by simp
          with k(2) show ?thesis by blast
        qed
      qed
      with k(1,3) show ?thesis
        by (intro exI [of _ k]) simp
    qed
    show "?P pg sel t k0 y"
    proof (cases "poll pg k0 sel")
      case (Found el)
      with hyps have "y = Inr el" by simp
      with Found show ?thesis
        by (intro exI [of _ k0]) auto
    next
      case NotFound
      show ?thesis
      proof (cases "t < elapsed pg k0")
        case True
        with NotFound hyps have "y = Inl (''Element not found for selector: '' @ sel)"
          by simp
        with NotFound True show ?thesis
          by (intro exI [of _ k0]) auto
      next
        case False
        with NotFound hyps have "f pg sel t (Suc k0) = Some y" by simp
        then show ?thesis
          by (rule later) (use NotFound False in simp)
      qed
    next
      case QueryThrows
      with hyps have "f pg sel t (Suc k0) = Some y" by simp
      then show ?thesis
        by (rule later) (use QueryThrows in simp)
    qed
  qed
  then show ?thesis .
qed

text \<open>A selector on which every query throws: the promise never settles, and no reply
  is sent.\<close>

lemma waitForElement_never_settles:
  assumes "\<forall>k. poll pg k sel = QueryThrows"
  shows "waitForElement pg sel t = None"
proof (cases "waitForElement pg sel t")
  case None
  then show ?thesis .
next
  case (Some y)
  then have "waitForElement_poll pg sel t 1 = Some y"
    by (simp add: waitForElement_def)
  from waitForElement_poll_settled [OF this] assms show ?thesis
    by auto
qed

lemma executeStep_throwing_page:
  "on_executeSingleStep throwing_page (Click ''div['' ''x'' 0) = None"
proof -
  have "waitForElement throwing_page ''div['' 7000 = None"
    by (rule waitForElement_never_settles) (simp add: poll_def elapsed_def throwing_page_def)
  then show ?thesis
    by (simp add: on_executeSingleStep_def executeStep_def)
qed

lemma executeStep_gives_up:
  assumes "1 \<le> k"
    and "\<forall>j. 1 \<le> j \<and> j < k \<longrightarrow>
           poll pg j (step_selector st) = NotFound \<and> elapsed pg j \<le> 7000"
    and "poll pg k (step_selector st) = NotFound" and "7000 < elapsed pg k"
  shows "executeStep pg st =
           Some ([], Inl (''Element not found for selector: '' @ step_selector st))"
proof -
  have "waitForElement_poll pg (step_selector st) 7000 1 =
          Some (Inl (''Element not found for selector: '' @ step_selector st))"
    by (rule waitForElement_poll_settles [of 1 k]) (use assms in auto)
  then show ?thesis
    by (simp add: executeStep_def waitForElement_def)
qed

lemma executeStep_finds:
  assumes "1 \<le> k"
    and "\<forall>j. 1 \<le> j \<and> j < k \<longrightarrow>
           poll pg j (step_selector st) = NotFound \<and> elapsed pg j \<le> 7000"
    and "poll pg k (step_selector st) = Found el"
  shows "executeStep pg st = Some (executeStep_switch el st)"
proof -
  have "waitForElement_poll pg (step_selector st) 7000 1 = Some (Inr el)"
    by (rule waitForElement_poll_settles [of 1 k _ _ _ el]) (use assms in auto)
  then show ?thesis
    by (simp add: executeStep_def waitForElement_def)
qed

text \<open>Timers do not run early: the \<open>k\<close>-th run of the callback is at least \<open>k\<close> times 100 ms
  after the call. Then the 71st run is later than the timeout, and when no query before
  it throws, the promise is settled by then.\<close>

lemma waitForElement_settles:
  assumes early: "\<forall>j. 100 * int j \<le> elapsed pg j"
    and nothrow: "\<forall>j. 1 \<le> j \<and> j \<le> 71 \<longrightarrow> poll pg j sel \<noteq> QueryThrows"
  shows "\<exists>y. waitForElement pg sel 7000 = Some y"
proof -
  define Q where "Q k \<longleftrightarrow> 1 \<le> k \<and> ((\<exists>el. poll pg k sel = Found el) \<or> 7000 < elapsed pg k)" for k
  from early have "100 * int 71 \<le> elapsed pg 71" by blast
  then have last: "Q 71" by (simp add: Q_def)
  define k where "k = (LEAST k. Q k)"
  have Qk: "Q k" unfolding k_def using last by (rule LeastI)
  have le: "k \<le> 71" unfolding k_def using last by (rule Least_le)
  have least: "\<not> Q j" if "j < k" for j
    using that not_less_Least [of j Q] by (simp add: k_def)
  have before: "\<forall>j. 1 \<le> j \<and> j < k \<longrightarrow>
      poll pg j sel = QueryThrows \<or> poll pg j sel = NotFound \<and> elapsed pg j \<le> 7000"
  proof (intro allI impI)
    fix j assume j: "1 \<le> j \<and> j < k"
    then have "\<not> Q j" by (simp add: least)
    with j have nf: "\<forall>el. poll pg j sel \<noteq> Found el" "elapsed pg j \<le> 7000"
      by (auto simp: Q_def)
    from j le nothrow have "poll pg j sel \<noteq> QueryThrows" by simp
    with nf show "poll pg j sel = QueryThrows \<or> poll pg j sel = NotFound \<and> elapsed pg j \<le> 7000"
      by (cases "poll pg j sel") auto
  qed
  from Qk have k1: "1 \<le> k" by (simp add: Q_def)
  from le k1 nothrow have nt: "poll pg k sel \<noteq> QueryThrows" by simp
  show ?thesis
  proof (cases "poll pg k sel")
    case (Found el)
    have "waitForElement_poll pg sel 7000 1 = Some (Inr el)"
      by (rule waitForElement_poll_settles [of 1 k _ _ _ el]) (use k1 before Found in auto)
    then show ?thesis by (simp add: waitForElement_def)
  next
    case NotFound
    with Qk have late: "7000 < elapsed pg k" by (simp add: Q_def)
    have "waitForElement_poll pg sel 7000 1 =
            Some (Inl (''Element not found for selector: '' @ sel))"
      by (rule waitForElement_poll_settles [of 1 k]) (use k1 before NotFound late in auto)
    then show ?thesis by (simp add: waitForElement_def)
  next
    case QueryThrows
    with nt show ?thesis by simp
  qed
qed

lemma executeStep_settles:
  assumes "\<forall>j. 100 * int j \<le> elapsed pg j"
    and "\<forall>j. 1 \<le> j \<and> j \<le> 71 \<longrightarrow> poll pg j (step_selector st) \<noteq> QueryThrows"
  shows "executeStep pg st \<noteq> None"
proof -
  from waitForElement_settles [OF assms] obtain y
    where "waitForElement pg (step_selector st) 7000 = Some y" by blast
  then show ?thesis by (cases y) (simp_all add: executeStep_def)
qed

lemma executeStep_switch_targets:
  "e \<in> set (fst (executeStep_switch el st)) \<Longrightarrow> effect_target e = el_ident el"
  by (cases st) (auto split: if_splits option.splits)

lemma executeStep_acts_on_found:
  assumes "executeStep pg st = Some (effs, r)" and "e \<in> set effs"
  shows "\<exists>k el. 1 \<le> k \<and> poll pg k (step_selector st) = Found el
           \<and> (\<forall>j. 1 \<le> j \<and> j < k \<longrightarrow>
                  poll pg j (step_selector st) = QueryThrows
                  \<or> poll pg j (step_selector st) = NotFound \<and> elapsed pg j \<le> 7000)
           \<and> effect_target e = el_ident el"
proof (cases "waitForElement pg (step_selector st) 7000")
  case None
  with assms show ?thesis by (simp add: executeStep_def)
next
  case (Some y)
  show ?thesis
  proof (cases y)
    case (Inl msg)
    with Some assms show ?thesis by (auto simp: executeStep_def)
  next
    case (Inr el)
    with Some assms have "effect_target e = el_ident el"
      using executeStep_switch_targets [of e el st] by (auto simp: executeStep_def)
    moreover from Some Inr have "waitForElement_poll pg (step_selector st) 7000 1 = Some (Inr el)"
      by (simp add: waitForElement_def)
    from waitForElement_poll_settled [OF this]
    obtain k where "1 \<le> k" "poll pg k (step_selector st) = Found el"
      "\<forall>j. 1 \<le> j \<and> j < k \<longrightarrow>
                  poll pg j (step_selector st) = QueryThrows
                  \<or> poll pg j (step_selector st) = NotFound \<and> elapsed pg j \<le> 7000"
      by auto
    ultimately show ?thesis by blast
  qed
qed

text \<open>
  C7, as the code has it. Each run of the interval callback first queries the document
  for \<open>step.selector\<close>, and only when nothing is found compares the time since the call
  with the 7000 ms timeout. With a selector on which the query does not throw: when the
  runs before the \<open>k\<close>-th all found nothing, none of them later than 7000 ms after the
  call, then
  \<^item> if the \<open>k\<close>-th finds nothing and runs later than 7000 ms after the call, \<open>executeStep\<close>
    fails with the message \<open>Element not found for selector: \<close> and the selector, and
    touches nothing;
  \<^item> if the \<open>k\<close>-th finds an element, however late it runs, \<open>executeStep\<close> goes on to act
    on that element, and for a \<open>click\<close> step on an element whose \<open>click\<close> method can be
    called it calls it and succeeds.
  Whatever \<open>executeStep\<close> does to the page, it does to the element found by the first run
  that found one, no earlier run having given up. And the polling is bounded: as the
  callback is set with a delay of 100 ms and timers do not run early, \<open>executeStep\<close>
  answers in the 71st run of the callback at the latest when no query up to then
  throws.
\<close>

theorem frame_executor_bounded_polling:
  assumes "1 \<le> k"
    and "\<forall>j. 1 \<le> j \<and> j < k \<longrightarrow>
           poll pg j (step_selector st) = NotFound \<and> elapsed pg j \<le> 7000"
  shows "(poll pg k (step_selector st) = NotFound \<and> 7000 < elapsed pg k \<longrightarrow>
            executeStep pg st =
              Some ([], Inl (''Element not found for selector: '' @ step_selector st)))
         \<and> (poll pg k (step_selector st) = Found el \<longrightarrow>
              executeStep pg st = Some (executeStep_switch el st)
              \<and> (\<forall>sel lbl f. st = Click sel lbl f \<and> click_error el = None \<longrightarrow>
                    executeStep pg st = Some ([ElementClick (el_ident el)], Inr ())))
         \<and> (\<forall>effs r e. executeStep pg st = Some (effs, r) \<and> e \<in> set effs \<longrightarrow>
              (\<exists>k' el'. 1 \<le> k' \<and> poll pg k' (step_selector st) = Found el'
                 \<and> (\<forall>j. 1 \<le> j \<and> j < k' \<longrightarrow>
                        poll pg j (step_selector st) = QueryThrows
                        \<or> poll pg j (step_selector st) = NotFound
                           \<and> elapsed pg j \<le> 7000)
                 \<and> effect_target e = el_ident el'))
         \<and> ((\<forall>j. 100 * int j \<le> elapsed pg j)
              \<and> (\<forall>j. 1 \<le> j \<and> j \<le> 71 \<longrightarrow> poll pg j (step_selector st) \<noteq> QueryThrows)
              \<longrightarrow> executeStep pg st \<noteq> None)"
proof (intro conjI impI allI)
  assume "poll pg k (step_selector st) = NotFound \<and> 7000 < elapsed pg k"
  with assms show "executeStep pg st =
      Some ([], Inl (''Element not found for selector: '' @ step_selector st))"
    using executeStep_gives_up [of k pg st] by blast
next
  assume found: "poll pg k (step_selector st) = Found el"
  with assms show exec: "executeStep pg st = Some (executeStep_switch el st)"
    using executeStep_finds [of k pg st el] by blast
  fix sel lbl f
  assume "st = Click sel lbl f \<and> click_error el = None"
  with exec show "executeStep pg st = Some ([ElementClick (el_ident el)], Inr ())"
    by simp
next
  fix effs r e
  assume "executeStep pg st = Some (effs, r) \<and> e \<in> set effs"
  then show "\<exists>k' el'. 1 \<le> k' \<and> poll pg k' (step_selector st) = Found el'
                 \<and> (\<forall>j. 1 \<le> j \<and> j < k' \<longrightarrow>
                        poll pg j (step_selector st) = QueryThrows
                        \<or> poll pg j (step_selector st) = NotFound
                           \<and> elapsed pg j \<le> 7000)
                 \<and> effect_target e = el_ident el'"
    using executeStep_acts_on_found [of pg st effs r e] by blast
next
  assume "(\<forall>j. 100 * int j \<le> elapsed pg j)
      \<and> (\<forall>j. 1 \<le> j \<and> j \<le> 71 \<longrightarrow> poll pg j (step_selector st) \<noteq> QueryThrows)"
  then show "executeStep pg st \<noteq> None"
    using executeStep_settles [of pg st] by blast
qed

lemma executeStep_late_page:
  "executeStep late_page (Click ''#late'' ''x'' 0) = Some ([ElementClick 7], Inr ())"
proof -
  have "executeStep late_page (Click ''#late'' ''x'' 0) =
          Some (executeStep_switch (html_element 7 None False) (Click ''#late'' ''x'' 0))"
    by (rule executeStep_finds [of 70]) (auto simp: poll_def elapsed_def late_page_def)
  then show ?thesis by (simp add: html_element_def)
qed

lemma executeStep_empty_page:
  "executeStep empty_page st =
     Some ([], Inl (''Element not found for selector: '' @ step_selector st))"
  by (rule executeStep_gives_up [of 71]) (auto simp: poll_def elapsed_def empty_page_def)

theorem frame_executor_bounded_polling_witness:
  "executeStep empty_page (Click ''#missing'' ''Go'' 0) =
     Some ([], Inl ''Element not found for selector: #missing'')
   \<and> executeStep late_page (Click ''#late'' ''x'' 0) = Some ([ElementClick 7], Inr ())"
proof -
  have quiet: "\<forall>j. 1 \<le> j \<and> j < 71 \<longrightarrow>
      poll empty_page j (step_selector (Click ''#missing'' ''Go'' 0)) = NotFound
      \<and> elapsed empty_page j \<le> 7000"
    by (auto simp: poll_def elapsed_def empty_page_def)
  have last: "poll empty_page 71 (step_selector (Click ''#missing'' ''Go'' 0)) = NotFound"
    "7000 < elapsed empty_page 71"
    by (simp_all add: poll_def elapsed_def empty_page_def)
  have early: "\<forall>j. 1 \<le> j \<and> j < 70 \<longrightarrow>
      poll late_page j (step_selector (Click ''#late'' ''x'' 0)) = NotFound
      \<and> elapsed late_page j \<le> 7000"
    by (auto simp: poll_def elapsed_def late_page_def)
  have found: "poll late_page 70 (step_selector (Click ''#late'' ''x'' 0)) =
                 Found (html_element 7 None False)"
    by (simp add: poll_def elapsed_def late_page_def)
  have click: "click_error (html_element 7 None False) = None"
    "el_ident (html_element 7 None False) = 7"
    by (simp_all add: html_element_def)
  from
    frame_executor_bounded_polling
      [of 71 empty_page "Click ''#missing'' ''Go'' 0" "html_element 7 None False", OF _ quiet]
    last
  have a: "executeStep empty_page (Click ''#missing'' ''Go'' 0) =
     Some ([], Inl ''Element not found for selector: #missing'')"
    by simp
  from
    frame_executor_bounded_polling
      [of 70 late_page "Click ''#late'' ''x'' 0" "html_element 7 None False", OF _ early]
    found click
  have b: "executeStep late_page (Click ''#late'' ''x'' 0) = Some ([ElementClick 7], Inr ())"
    by simp
  from a b show ?thesis by simp
qed

text \<open>
  C7 as stated fails. In \<open>late_page\<close> the selector \<open>#late\<close> matches nothing at any time up to
  7000 ms after the call, and \<open>executeStep\<close> still clicks the element, which the run of
  the callback at 7005 ms finds. And on a selector for which the query throws, nothing
  ever matches and \<open>executeStep\<close> does not fail: it never answers.
\<close>

theorem frame_executor_timeout_counterexample:
  "list_all (\<lambda>t. querySelector_at late_page t ''#late'' = NotFound) [0..7000]
   \<and> executeStep late_page (Click ''#late'' ''x'' 0) = Some ([ElementClick 7], Inr ())
   \<and> on_executeSingleStep throwing_page (Click ''div['' ''x'' 0) = None"
proof (intro conjI)
  show "list_all (\<lambda>t. querySelector_at late_page t ''#late'' = NotFound) [0..7000]"
    by (simp add: list_all_iff late_page_def)
  show "executeStep late_page (Click ''#late'' ''x'' 0) = Some ([ElementClick 7], Inr ())"
    by (rule executeStep_late_page)
  show "on_executeSingleStep throwing_page (Click ''div['' ''x'' 0) = None"
    by (rule executeStep_throwing_page)
qed

lemma executeStep_page_with:
  "executeStep (page_with sel el) (Change sel v f) = Some (executeStep_switch el (Change sel v f))"
  by (rule executeStep_finds [of 1]) (auto simp: poll_def elapsed_def page_with_def)

text \<open>
  C8. The executor tests \<open>typeof element.value\<close> before \<open>isContentEditable\<close>. An editable
  list item is content-editable and has a \<open>value\<close> property (its ordinal): the \<open>change\<close>
  step assigns \<open>step.value\<close> to that property, dispatches the three events and succeeds,
  and the text of the element is not assigned. The recorder of the pointer-down script
  tests \<open>isContentEditable\<close> first: for the same element, the value it reports is the text.
\<close>

theorem change_step_editable_list_item:
  "executeStep (page_with ''#item'' (html_element 3 (Some ''0'') True))
     (Change ''#item'' ''milk'' 0) =
     Some ([SetValue 3 ''milk'', DispatchEvent 3 ''input'', DispatchEvent 3 ''change'',
            DispatchEvent 3 ''blur''], Inr ())
   \<and> settled_value
        \<lparr>el_ident = 3, el_value = Some ''0'', isContentEditable = True, click_error = None,
         set_value_error = (\<lambda>s. None), tagName = ''LI'', node_id = ''item'',
         getAttribute = Map.empty, previousTags = [], innerText = ''milk''\<rparr> = Some ''milk''"
  by (simp add: executeStep_page_with html_element_def settled_value_def)

text \<open>Elements of one kind only behave as the claim has it; a file input, which has a
  \<open>value\<close>, refuses a file name, and the step fails with the browser's message.\<close>

lemma change_step_on_plain_elements:
  "executeStep (page_with ''#name'' (html_element 1 (Some []) False))
     (Change ''#name'' ''Ada'' 0) =
     Some ([SetValue 1 ''Ada'', DispatchEvent 1 ''input'', DispatchEvent 1 ''change'',
            DispatchEvent 1 ''blur''], Inr ())"
  "executeStep (page_with ''#note'' (html_element 4 None True)) (Change ''#note'' ''hi'' 0) =
     Some ([SetInnerText 4 ''hi'', DispatchEvent 4 ''input'', DispatchEvent 4 ''change'',
            DispatchEvent 4 ''blur''], Inr ())"
  "executeStep (page_with ''#box'' (html_element 2 None False)) (Change ''#box'' ''x'' 0) =
     Some ([], Inl ''Cannot set value on a non-input, non-contenteditable element.'')"
  "executeStep (page_with ''#upload'' file_input) (Change ''#upload'' ''a.txt'' 0) =
     Some ([], Inl (the (set_value_error file_input ''a.txt'')))"
  by (simp_all add: executeStep_page_with html_element_def file_input_def)

section \<open>Properties of the replay orchestrator\<close>

lemma dispatch_error_None_iff:
  "dispatch_error d = None \<longleftrightarrow>
     (\<forall>m. d \<noteq> Throws m) \<and> (\<forall>r. d = Resolves (Some r) \<longrightarrow> status r \<noteq> ''error'')"
proof (cases d)
  case (Throws m)
  then show ?thesis by simp
next
  case (Resolves ro)
  then show ?thesis by (cases ro) auto
qed

lemma replay_steps_dispatch:
  "\<not> is_wait st \<Longrightarrow>
     replay_steps out tab k (st # rest) =
       Log ''Orchestrating step:'' # SendMessage tab (step_frameId st) st #
       (case dispatch_error (out k) of
          Some msg \<Rightarrow>
            [Log (''Failed to send message to frame or it failed. Error: '' @ msg),
             Log ''Stopping flow due to error.'',
             InjectFunc tab failed_func [msg]]
        | None \<Rightarrow>
            Log ''Waiting 500ms for page to stabilize...'' # Sleep 500 #
            replay_steps out tab (Suc k) rest)"
  by (cases st) simp_all

lemma replay_steps_wait:
  "replay_steps out tab k (Wait d # rest) =
     Log ''Orchestrating step:'' # Sleep d # replay_steps out tab (Suc k) rest"
  by simp

declare replay_steps.simps(2) [simp del]

lemma failed_func_neq_completed_func: "failed_func \<noteq> completed_func"
proof
  assume "failed_func = completed_func"
  then have "params failed_func = params completed_func" by simp
  then show False by (simp add: failed_func_def completed_func_def)
qed

lemma all_less_Cons:
  "(\<forall>i<length (x # xs). P i ((x # xs) ! i)) \<longleftrightarrow> P 0 x \<and> (\<forall>i<length xs. P (Suc i) (xs ! i))"
proof
  assume all: "\<forall>i<length (x # xs). P i ((x # xs) ! i)"
  from all have "P 0 ((x # xs) ! 0)" by (simp del: nth_Cons_0)
  moreover have "\<forall>i<length xs. P (Suc i) (xs ! i)"
  proof (intro allI impI)
    fix i assume "i < length xs"
    then have "Suc i < length (x # xs)" by simp
    with all have "P (Suc i) ((x # xs) ! Suc i)" by blast
    then show "P (Suc i) (xs ! i)" by simp
  qed
  ultimately show "P 0 x \<and> (\<forall>i<length xs. P (Suc i) (xs ! i))" by simp
next
  assume r: "P 0 x \<and> (\<forall>i<length xs. P (Suc i) (xs ! i))"
  show "\<forall>i<length (x # xs). P i ((x # xs) ! i)"
  proof (intro allI impI)
    fix i assume "i < length (x # xs)"
    with r show "P i ((x # xs) ! i)" by (cases i) simp_all
  qed
qed

lemma replay_steps_completes_iff:
  "InjectFunc tab completed_func [] \<in> set (replay_steps out tab k sts) \<longleftrightarrow>
     (\<forall>i<length sts. \<not> is_wait (sts ! i) \<longrightarrow> dispatch_error (out (k + i)) = None)"
proof (induction sts arbitrary: k)
  case Nil
  show ?case by simp
next
  case (Cons st rest)
  have split:
    "(\<forall>i<length (st # rest). \<not> is_wait ((st # rest) ! i) \<longrightarrow> dispatch_error (out (k + i)) = None)
       \<longleftrightarrow> (\<not> is_wait st \<longrightarrow> dispatch_error (out k) = None)
         \<and> (\<forall>i<length rest. \<not> is_wait (rest ! i) \<longrightarrow> dispatch_error (out (Suc k + i)) = None)"
    using all_less_Cons [of st rest "\<lambda>i s. \<not> is_wait s \<longrightarrow> dispatch_error (out (k + i)) = None"]
    by simp
  show ?case
  proof (cases "is_wait st")
    case True
    then obtain d where "st = Wait d" by (cases st) simp_all
    then show ?thesis
      unfolding split using Cons [of "Suc k"] by (simp add: replay_steps_wait)
  next
    case False
    show ?thesis
    proof (cases "dispatch_error (out k)")
      case None
      with False show ?thesis
        unfolding split using Cons [of "Suc k"]
        by (simp add: replay_steps_dispatch)
    next
      case (Some msg)
      with False show ?thesis
        unfolding split
        by (simp add: replay_steps_dispatch failed_func_neq_completed_func)
    qed
  qed
qed

lemma alert_in_tab_failed_func_unbound:
  "g ''step'' = None \<Longrightarrow> alert_in_tab quote g failed_func [msg] = None"
  by (simp add: alert_in_tab_def failed_func_def)

lemma alert_in_tab_failed_func_bound:
  "g ''step'' = Some (shown, json) \<Longrightarrow>
     alert_in_tab quote g failed_func [msg] =
       Some (''Replay failed at step: '' @ json @ ''\<newline>Error: '' @ msg)"
  by (simp add: alert_in_tab_def failed_func_def)

lemma browser_missing_reply:
  "dispatch_error (dispatch_result browser_missing (Suc 0)) =
     Some ''Element not found for selector: #missing''"
  by (simp add: browser_missing_def flow_missing_def on_executeSingleStep_def
      executeStep_empty_page)

text \<open>
  C1. When the dispatch of a step fails with reason \<open>msg\<close> (the \<open>sendMessage\<close> throws, or
  the frame replies with status \<open>'error'\<close>), the loop sends no further step whatever
  follows in the flow, logs the reason, and makes one \<open>executeScript\<close> call whose only
  argument is the reason. The function of that call builds its text from \<open>step\<close> as well,
  which is the loop variable of the service worker and is not among its parameters; run
  in a tab that has no global of that name, the function alerts nothing.
\<close>

theorem replay_failure_report:
  "\<not> is_wait st \<and> dispatch_error (out k) = Some msg \<longrightarrow>
     replay_steps out tab k (st # post) =
       [Log ''Orchestrating step:'', SendMessage tab (step_frameId st) st,
        Log (''Failed to send message to frame or it failed. Error: '' @ msg),
        Log ''Stopping flow due to error.'',
        InjectFunc tab failed_func [msg]]
     \<and> (g ''step'' = None \<longrightarrow> alert_in_tab quote g failed_func [msg] = None)"
  by (simp add: replay_steps_dispatch alert_in_tab_failed_func_unbound)

theorem replay_failure_report_witness:
  "handleRunFlow browser_missing [''f'' \<mapsto> flow_missing] ''f'' =
     [Log (''Attempting to run flow: '' @ [CHR 0x22] @ ''f'' @ [CHR 0x22]),
      TabsCreate ''https://x/form'',
      Log ''Tab 5 loaded. Injecting replay script into all frames.'',
      InjectFiles 5 [''replay_script.js''],
      Log ''Replay script injected. Starting step-by-step execution.'',
      Log ''Orchestrating step:'', Sleep 150,
      Log ''Orchestrating step:'', SendMessage 5 0 (Click ''#missing'' ''Go'' 0),
      Log ''Failed to send message to frame or it failed. Error: Element not found for selector: #missing'',
      Log ''Stopping flow due to error.'',
      InjectFunc 5 failed_func [''Element not found for selector: #missing'']]
   \<and> alert_in_tab (\<lambda>s. s) Map.empty failed_func
         [''Element not found for selector: #missing''] = None"
proof -
  have tab: "created_tab browser_missing = Inr 5" "load_completes browser_missing"
    by (simp_all add: browser_missing_def)
  from
    replay_failure_report
      [of "Click ''#missing'' ''Go'' 0" "dispatch_result browser_missing" "Suc 0"
          "''Element not found for selector: #missing''" 5 "[Change ''#name'' ''Ada'' 0]"
          Map.empty "\<lambda>s. s"]
    browser_missing_reply
  have failing:
    "replay_steps (dispatch_result browser_missing) 5 (Suc 0)
       [Click ''#missing'' ''Go'' 0, Change ''#name'' ''Ada'' 0] =
       [Log ''Orchestrating step:'', SendMessage 5 0 (Click ''#missing'' ''Go'' 0),
        Log ''Failed to send message to frame or it failed. Error: Element not found for selector: #missing'',
        Log ''Stopping flow due to error.'',
        InjectFunc 5 failed_func [''Element not found for selector: #missing'']]"
    and silent: "alert_in_tab (\<lambda>s. s) Map.empty failed_func
         [''Element not found for selector: #missing''] = None"
    by simp_all
  show ?thesis
    by (simp add: handleRunFlow_def get_property_def flow_missing_def tab replay_steps_wait
        failing silent)
qed

lemma run_flow_precondition_errors:
  \<open>(savedFlows n = None \<and> object_prototype n = Undefined \<or> savedFlows n = Some [] \<longrightarrow>
      handleRunFlow b savedFlows n =
        [Log (''Attempting to run flow: "'' @ n @ ''"''), Log ''Error: Flow not found.''])
   \<and> (savedFlows n = Some (st # rest) \<and> (\<forall>u f. st \<noteq> Goto u f) \<longrightarrow>
      handleRunFlow b savedFlows n =
        [Log (''Attempting to run flow: "'' @ n @ ''"''),
         Log ''Error: Flow must start with a "goto".''])\<close>
proof (intro conjI impI)
  assume "savedFlows n = None \<and> object_prototype n = Undefined \<or> savedFlows n = Some []"
  then show \<open>handleRunFlow b savedFlows n =
        [Log (''Attempting to run flow: "'' @ n @ ''"''), Log ''Error: Flow not found.'']\<close>
    by (auto simp: handleRunFlow_def get_property_def)
next
  assume "savedFlows n = Some (st # rest) \<and> (\<forall>u f. st \<noteq> Goto u f)"
  then show \<open>handleRunFlow b savedFlows n =
        [Log (''Attempting to run flow: "'' @ n @ ''"''),
         Log ''Error: Flow must start with a "goto".'']\<close>
    by (cases st) (simp_all add: handleRunFlow_def get_property_def)
qed


text \<open>
  C10. A step that is not a wait and whose \<open>sendMessage\<close> resolves with \<open>undefined\<close> is
  followed by the 500 ms pause and by the rest of the flow, like a step that succeeded;
  and the run reaches its completion report exactly when no dispatch of a step throws
  and none is answered with a reply whose status is \<open>'error'\<close>.
\<close>

theorem undefined_reply_continues:
  "(\<not> is_wait st \<and> out k = Resolves None \<longrightarrow>
      replay_steps out tab k (st # rest) =
        [Log ''Orchestrating step:'', SendMessage tab (step_frameId st) st,
         Log ''Waiting 500ms for page to stabilize...'', Sleep 500]
        @ replay_steps out tab (Suc k) rest)
   \<and> (InjectFunc tab completed_func [] \<in> set (replay_steps out tab k sts) \<longleftrightarrow>
        (\<forall>i<length sts. \<not> is_wait (sts ! i) \<longrightarrow>
           (\<forall>m. out (k + i) \<noteq> Throws m)
           \<and> (\<forall>r. out (k + i) = Resolves (Some r) \<longrightarrow> status r \<noteq> ''error'')))"
proof (intro conjI impI)
  assume "\<not> is_wait st \<and> out k = Resolves None"
  then show "replay_steps out tab k (st # rest) =
        [Log ''Orchestrating step:'', SendMessage tab (step_frameId st) st,
         Log ''Waiting 500ms for page to stabilize...'', Sleep 500]
        @ replay_steps out tab (Suc k) rest"
    by (simp add: replay_steps_dispatch)
next
  show "InjectFunc tab completed_func [] \<in> set (replay_steps out tab k sts) \<longleftrightarrow>
        (\<forall>i<length sts. \<not> is_wait (sts ! i) \<longrightarrow>
           (\<forall>m. out (k + i) \<noteq> Throws m)
           \<and> (\<forall>r. out (k + i) = Resolves (Some r) \<longrightarrow> status r \<noteq> ''error''))"
    unfolding replay_steps_completes_iff dispatch_error_None_iff ..
qed

theorem undefined_reply_continues_witness:
  "replay_steps (dispatch_result browser_silent) 5 0
     [Click ''#a'' ''A'' 0, Change ''#name'' ''Ada'' 2] =
     [Log ''Orchestrating step:'', SendMessage 5 0 (Click ''#a'' ''A'' 0),
      Log ''Waiting 500ms for page to stabilize...'', Sleep 500,
      Log ''Orchestrating step:'', SendMessage 5 2 (Change ''#name'' ''Ada'' 2),
      Log ''Waiting 500ms for page to stabilize...'', Sleep 500,
      Log ''Flow execution finished successfully.'', InjectFunc 5 completed_func []]
   \<and> InjectFunc 5 completed_func []
       \<in> set (replay_steps (dispatch_result browser_silent) 5 0
                [Click ''#a'' ''A'' 0, Change ''#name'' ''Ada'' 2])
   \<and> InjectFunc 5 completed_func []
       \<notin> set (replay_steps (dispatch_result browser_missing) 5 0 (tl flow_missing))"
proof -
  have silent: "dispatch_result browser_silent = (\<lambda>k. Resolves None)"
    by (simp add: browser_silent_def)
  from
    undefined_reply_continues
      [of "Click ''#a'' ''A'' 0" "dispatch_result browser_silent" 0 5
          "[Change ''#name'' ''Ada'' 2]" "[Click ''#a'' ''A'' 0, Change ''#name'' ''Ada'' 2]"]
  have run: "replay_steps (dispatch_result browser_silent) 5 0
     [Click ''#a'' ''A'' 0, Change ''#name'' ''Ada'' 2] =
     [Log ''Orchestrating step:'', SendMessage 5 0 (Click ''#a'' ''A'' 0),
      Log ''Waiting 500ms for page to stabilize...'', Sleep 500,
      Log ''Orchestrating step:'', SendMessage 5 2 (Change ''#name'' ''Ada'' 2),
      Log ''Waiting 500ms for page to stabilize...'', Sleep 500,
      Log ''Flow execution finished successfully.'', InjectFunc 5 completed_func []]"
    by (simp add: silent replay_steps_dispatch)
  from
    undefined_reply_continues
      [of "Click ''#a'' ''A'' 0" "dispatch_result browser_missing" 0 5
          "[Change ''#name'' ''Ada'' 2]" "tl flow_missing"]
    browser_missing_reply
  have aborted: "InjectFunc 5 completed_func []
       \<notin> set (replay_steps (dispatch_result browser_missing) 5 0 (tl flow_missing))"
    by (simp add: flow_missing_def replay_steps_wait replay_steps_dispatch
        failed_func_neq_completed_func)
  from run aborted show ?thesis by simp
qed

section \<open>Properties of the selector resolver and the frame observers\<close>

lemma length_escape_at_pos: "1 \<le> length (escape_at s i)"
  by (simp add: escape_at_def Let_def escaped_as_code_point_def escaped_def)

lemma escape_at_length_one:
  assumes "length (escape_at s i) = 1"
  shows "is_name_char (s ! i)"
    and "\<not> (i = 0 \<and> is_digit (s ! i))"
    and "\<not> (i = 1 \<and> is_digit (s ! i) \<and> s ! 0 = CHR ''-'')"
    and "\<not> (i = 0 \<and> length s = 1 \<and> s ! i = CHR ''-'')"
  using assms
  by (simp_all add: escape_at_def Let_def escaped_as_code_point_def escaped_def
      split: if_splits)

lemma is_name_char_not_control:
  assumes "is_name_char c"
  shows "(of_char c :: nat) \<noteq> 0 \<and> \<not> (of_char c :: nat) \<le> 0x1F \<and> (of_char c :: nat) \<noteq> 0x7F"
  using assms by (auto simp: is_name_char_def is_digit_def)

lemma escape_at_plain:
  assumes "needs_no_escape s" and "i < length s"
  shows "escape_at s i = [s ! i]"
proof -
  from assms obtain c cs where s: "s = c # cs" by (cases s) simp_all
  from assms have name: "is_name_char (s ! i)"
    by (simp add: needs_no_escape_def list_all_length)
  from assms(1) s have first: "\<not> is_digit c" "c = CHR ''-'' \<longrightarrow> cs \<noteq> []"
    "c = CHR ''-'' \<longrightarrow> \<not> is_digit (cs ! 0)"
    by (auto simp: needs_no_escape_def split: list.splits)
  show ?thesis
  proof (cases i)
    case 0
    with s first name is_name_char_not_control [OF name] show ?thesis
      by (auto simp: escape_at_def Let_def)
  next
    case (Suc j)
    with s first name is_name_char_not_control [OF name] show ?thesis
      by (auto simp: escape_at_def Let_def)
  qed
qed

lemma length_le_concat:
  "\<forall>x \<in> set xs. 1 \<le> length (f x) \<Longrightarrow> length xs \<le> length (concat (map f xs))"
  by (induction xs) auto

lemma concat_length_pieces:
  "\<forall>x \<in> set xs. 1 \<le> length (f x) \<Longrightarrow> length (concat (map f xs)) = length xs
     \<Longrightarrow> \<forall>x \<in> set xs. length (f x) = 1"
proof (induction xs)
  case Nil
  show ?case by simp
next
  case (Cons x xs)
  from Cons.prems(1) have pos: "1 \<le> length (f x)" and rest: "\<forall>y \<in> set xs. 1 \<le> length (f y)"
    by simp_all
  from length_le_concat [OF rest] have le: "length xs \<le> length (concat (map f xs))" .
  from Cons.prems(2) have sum: "length (f x) + length (concat (map f xs)) = Suc (length xs)"
    by simp
  from pos le sum have one: "length (f x) = 1" and eq: "length (concat (map f xs)) = length xs"
    by arith+
  from Cons.IH [OF rest eq] one show ?case by simp
qed

lemma concat_singletons: "concat (map (\<lambda>i. [s ! i]) [0..<length s]) = s"
proof -
  have "concat (map (\<lambda>i. [s ! i]) xs) = map (\<lambda>i. s ! i) xs" for xs
    by (induction xs) simp_all
  then show ?thesis by (simp add: map_nth)
qed

lemma CSS_escape_fixed_iff: "CSS_escape s = s \<longleftrightarrow> needs_no_escape s"
proof
  assume plain: "needs_no_escape s"
  have pieces: "map (escape_at s) [0..<length s] = map (\<lambda>i. [s ! i]) [0..<length s]"
    by (simp add: escape_at_plain [OF plain])
  show "CSS_escape s = s"
    unfolding CSS_escape_def pieces by (rule concat_singletons)
next
  assume fixed: "CSS_escape s = s"
  then have len: "length (concat (map (escape_at s) [0..<length s])) = length [0..<length s]"
    by (simp add: CSS_escape_def)
  have pos: "\<forall>i \<in> set [0..<length s]. 1 \<le> length (escape_at s i)"
    using length_escape_at_pos by blast
  from concat_length_pieces [OF pos len]
  have one: "\<forall>i \<in> set [0..<length s]. length (escape_at s i) = 1" .
  have at: "length (escape_at s i) = 1" if "i < length s" for i
    using one that by simp
  have all: "list_all is_name_char s"
    unfolding list_all_length using escape_at_length_one(1) [OF at] by blast
  show "needs_no_escape s"
  proof (cases s)
    case Nil
    then show ?thesis by (simp add: needs_no_escape_def)
  next
    case (Cons c cs)
    then have len0: "length (escape_at s 0) = 1" using at [of 0] by simp
    from escape_at_length_one(2) [OF len0] Cons have nodigit: "\<not> is_digit c" by simp
    from escape_at_length_one(4) [OF len0] Cons have lone: "\<not> (c = CHR ''-'' \<and> cs = [])"
      by auto
    have second: "\<not> (c = CHR ''-'' \<and> is_digit d)" if "cs = d # ds" for d ds
    proof -
      from that Cons have "length (escape_at s 1) = 1" using at [of 1] by simp
      from escape_at_length_one(3) [OF this] that Cons show ?thesis by auto
    qed
    from all nodigit lone second Cons show ?thesis
      by (auto simp: needs_no_escape_def split: list.splits)
  qed
qed

lemma needs_no_escape_name: "needs_no_escape ''name''"
  by (simp add: needs_no_escape_def is_name_char_def is_digit_def)





lemma observe_no_mousedown:
  "\<forall>ev \<in> set evs. \<forall>t a. ev \<noteq> MouseDown t a \<Longrightarrow> observe env lrv evs = ([], lrv)"
proof (induction evs)
  case Nil
  show ?case by simp
next
  case (Cons ev evs)
  then have "observer_step env lrv ev = ([], lrv)"
    by (cases ev) simp_all
  with Cons show ?case by simp
qed

lemma observe_append:
  "observe env lrv (xs @ ys) =
     (fst (observe env lrv xs) @ fst (observe env (snd (observe env lrv xs)) ys),
      snd (observe env (snd (observe env lrv xs)) ys))"
  by (induction xs arbitrary: lrv) (simp_all add: split_beta)

lemma onMouseDown_keeps:
  "\<forall>a. activeElement = Some a \<longrightarrow> el_ident (node_of a) \<noteq> x \<Longrightarrow>
     snd (onMouseDown env lrv t activeElement) x = lrv x"
  by (auto simp: onMouseDown_def recordInputChange_def split: option.splits)

lemma observe_keeps:
  "\<forall>ev \<in> set evs. \<forall>t a. ev = MouseDown t (Some a) \<longrightarrow> el_ident (node_of a) \<noteq> x \<Longrightarrow>
     snd (observe env lrv evs) x = lrv x"
proof (induction evs arbitrary: lrv)
  case Nil
  show ?case by simp
next
  case (Cons ev evs)
  have step: "snd (observer_step env lrv ev) x = lrv x"
  proof (cases ev)
    case (MouseDown t ao)
    with Cons.prems have "\<forall>a. ao = Some a \<longrightarrow> el_ident (node_of a) \<noteq> x" by simp
    from onMouseDown_keeps [OF this] MouseDown show ?thesis by simp
  qed simp_all
  from Cons.prems have "\<forall>ev \<in> set evs. \<forall>t a. ev = MouseDown t (Some a)
      \<longrightarrow> el_ident (node_of a) \<noteq> x"
    by simp
  from Cons.IH [OF this, of "snd (observer_step env lrv ev)"] step show ?case
    by (simp add: split_beta)
qed

lemma onMouseDown_flush:
  assumes "runtime_ok env"
    and "el_ident (node_of a) \<noteq> el_ident (node_of t)"
    and "isContentEditable (node_of a) \<or> tagName (node_of a) \<in> {''INPUT'', ''TEXTAREA''}"
    and "settled_value (node_of a) = Some v"
  shows "onMouseDown env lrv t (Some a) =
           ((if lrv (el_ident (node_of a)) = Some v then []
             else [ChangeAction (getSelector env (Some a)) v])
            @ [ClickAction (getSelector env (Some t)) (take 50 (trim env (innerText (node_of t))))],
            lrv(el_ident (node_of a) \<mapsto> v))"
  using assms
  by (auto simp: onMouseDown_def recordInputChange_def sendMessage_def map_upd_triv)

lemma observe_then_flush:
  assumes "runtime_ok env"
    and "el_ident (node_of a) \<noteq> el_ident (node_of t)"
    and "isContentEditable (node_of a) \<or> tagName (node_of a) \<in> {''INPUT'', ''TEXTAREA''}"
    and "settled_value (node_of a) = Some v"
  shows "observe env lrv (evs @ [MouseDown t (Some a)]) =
           (fst (observe env lrv evs)
            @ (if snd (observe env lrv evs) (el_ident (node_of a)) = Some v then []
               else [ChangeAction (getSelector env (Some a)) v])
            @ [ClickAction (getSelector env (Some t)) (take 50 (trim env (innerText (node_of t))))],
            (snd (observe env lrv evs))(el_ident (node_of a) \<mapsto> v))"
  by (simp add: observe_append onMouseDown_flush [OF assms] split_beta)

text \<open>
  C4, as the pointer-down script has it. Edits of an element and its loss of focus reach
  no listener: they send nothing and leave \<open>lastRecordedValue\<close> as it is. The first time
  since the script started that the pointer is pressed on another element while an
  edited one has the focus (a content-editable element, an \<open>INPUT\<close> or a \<open>TEXTAREA\<close>, whose
  value is then \<open>v1\<close>), one \<open>change\<close> report with \<open>v1\<close> is sent, followed by the \<open>click\<close>
  report. At the next such press for the same element, whatever happened to other
  elements in between and whatever was sent before, the \<open>change\<close> report carries the value
  \<open>v2\<close> that the element has by then, and it is left out exactly when \<open>v2\<close> is \<open>v1\<close>, the
  value at the press before; the \<open>click\<close> report is sent in either case.
\<close>

theorem pointer_down_flushes_edited_value:
  assumes "runtime_ok env"
    and "\<forall>ev \<in> set edits. \<forall>t a. ev \<noteq> MouseDown t a"
    and "\<forall>ev \<in> set pre. \<forall>t a. ev = MouseDown t (Some a)
           \<longrightarrow> el_ident (node_of a) \<noteq> el_ident (node_of a1)"
    and "\<forall>ev \<in> set mid. \<forall>t a. ev = MouseDown t (Some a)
           \<longrightarrow> el_ident (node_of a) \<noteq> el_ident (node_of a1)"
    and "el_ident (node_of a1) \<noteq> el_ident (node_of t1)"
    and "isContentEditable (node_of a1) \<or> tagName (node_of a1) \<in> {''INPUT'', ''TEXTAREA''}"
    and "settled_value (node_of a1) = Some v1"
    and "el_ident (node_of a2) = el_ident (node_of a1)"
    and "el_ident (node_of a2) \<noteq> el_ident (node_of t2)"
    and "isContentEditable (node_of a2) \<or> tagName (node_of a2) \<in> {''INPUT'', ''TEXTAREA''}"
    and "settled_value (node_of a2) = Some v2"
  shows "observe env lrv edits = ([], lrv)
     \<and> fst (observe env Map.empty (pre @ [MouseDown t1 (Some a1)])) =
         fst (observe env Map.empty pre)
         @ [ChangeAction (getSelector env (Some a1)) v1,
            ClickAction (getSelector env (Some t1)) (take 50 (trim env (innerText (node_of t1))))]
     \<and> fst (observe env lrv (old @ [MouseDown t1 (Some a1)] @ mid @ [MouseDown t2 (Some a2)])) =
         fst (observe env lrv (old @ [MouseDown t1 (Some a1)] @ mid))
         @ (if v2 = v1 then [] else [ChangeAction (getSelector env (Some a2)) v2])
         @ [ClickAction (getSelector env (Some t2)) (take 50 (trim env (innerText (node_of t2))))]"
proof (intro conjI)
  show "observe env lrv edits = ([], lrv)"
    using assms(2) by (rule observe_no_mousedown)
next
  have "snd (observe env Map.empty pre) (el_ident (node_of a1)) = None"
    using observe_keeps [OF assms(3), of env Map.empty] by simp
  then show "fst (observe env Map.empty (pre @ [MouseDown t1 (Some a1)])) =
         fst (observe env Map.empty pre)
         @ [ChangeAction (getSelector env (Some a1)) v1,
            ClickAction (getSelector env (Some t1)) (take 50 (trim env (innerText (node_of t1))))]"
    by (simp add: observe_then_flush [OF assms(1,5,6,7)])
next
  let ?x = "el_ident (node_of a1)"
  let ?s1 = "snd (observe env lrv (old @ [MouseDown t1 (Some a1)]))"
  have first: "?s1 ?x = Some v1"
    by (simp add: observe_then_flush [OF assms(1,5,6,7)])
  have "snd (observe env lrv ((old @ [MouseDown t1 (Some a1)]) @ mid)) ?x =
          snd (observe env ?s1 mid) ?x"
    by (simp only: observe_append snd_conv)
  also have "\<dots> = ?s1 ?x"
    by (rule observe_keeps [OF assms(4)])
  also note first
  finally have kept: "snd (observe env lrv (old @ [MouseDown t1 (Some a1)] @ mid)) ?x = Some v1"
    by simp
  have "observe env lrv ((old @ [MouseDown t1 (Some a1)] @ mid) @ [MouseDown t2 (Some a2)]) =
      (fst (observe env lrv (old @ [MouseDown t1 (Some a1)] @ mid))
       @ (if snd (observe env lrv (old @ [MouseDown t1 (Some a1)] @ mid)) (el_ident (node_of a2))
             = Some v2 then []
          else [ChangeAction (getSelector env (Some a2)) v2])
       @ [ClickAction (getSelector env (Some t2)) (take 50 (trim env (innerText (node_of t2))))],
       (snd (observe env lrv (old @ [MouseDown t1 (Some a1)] @ mid)))(el_ident (node_of a2) \<mapsto> v2))"
    by (rule observe_then_flush [OF assms(1,9,10,11)])
  then have second:
    "fst (observe env lrv (old @ [MouseDown t1 (Some a1)] @ mid @ [MouseDown t2 (Some a2)])) =
       fst (observe env lrv (old @ [MouseDown t1 (Some a1)] @ mid))
       @ (if Some v1 = Some v2 then [] else [ChangeAction (getSelector env (Some a2)) v2])
       @ [ClickAction (getSelector env (Some t2)) (take 50 (trim env (innerText (node_of t2))))]"
    using kept assms(8) by simp
  show "fst (observe env lrv (old @ [MouseDown t1 (Some a1)] @ mid @ [MouseDown t2 (Some a2)])) =
         fst (observe env lrv (old @ [MouseDown t1 (Some a1)] @ mid))
         @ (if v2 = v1 then [] else [ChangeAction (getSelector env (Some a2)) v2])
         @ [ClickAction (getSelector env (Some t2)) (take 50 (trim env (innerText (node_of t2))))]"
  proof (cases "v2 = v1")
    case True
    with second show ?thesis by simp
  next
    case False
    then have "Some v1 \<noteq> Some v2" by auto
    with second False show ?thesis by simp
  qed
qed

lemma button_selector:
  "getSelector plain_env (Some send_button) =
     ''body > form:nth-of-type(1) > button:nth-of-type(1)''"
  by (simp add: getSelector_def send_button_def form_el_def body_el_def html_root_def
      plain_node_def plain_env_def stableAttrs_def nth_of_type_step_def siblingIndex_def
      lower_tags_def)

lemma name_selector: "getSelector plain_env (Some (name_input v)) = ''#name''"
  using CSS_escape_fixed_iff [of "''name''"]
  by (simp add: getSelector_def name_input_def plain_node_def needs_no_escape_name)

lemma example_element_facts:
  "runtime_ok plain_env"
  "el_ident (node_of (name_input v)) = 13"
  "el_ident (node_of send_button) = 14"
  "tagName (node_of (name_input v)) = ''INPUT''"
  "settled_value (node_of (name_input v)) = Some v"
  "innerText (node_of send_button) = ''Send''"
  "innerText (node_of (name_input v)) = []"
  "trim plain_env = (\<lambda>s. s)"
  by (simp_all add: plain_env_def name_input_def send_button_def plain_node_def
      settled_value_def)

theorem pointer_down_flushes_edited_value_witness:
  "observe plain_env Map.empty
     [InputEvent (name_input ''A''), InputEvent (name_input ''Ada''),
      BlurEvent (name_input ''Ada'')] = ([], Map.empty)
   \<and> fst (observe plain_env Map.empty
          ([InputEvent (name_input ''A''), InputEvent (name_input ''Ada'')]
           @ [MouseDown send_button (Some (name_input ''Ada''))])) =
       [ChangeAction ''#name'' ''Ada'',
        ClickAction ''body > form:nth-of-type(1) > button:nth-of-type(1)'' ''Send'']
   \<and> fst (observe plain_env Map.empty
          ([InputEvent (name_input ''Ada'')]
           @ [MouseDown send_button (Some (name_input ''Ada''))]
           @ [BlurEvent (name_input ''Ada''), MouseDown (name_input ''Ada'') None]
           @ [MouseDown send_button (Some (name_input ''Ada''))])) =
       [ChangeAction ''#name'' ''Ada'',
        ClickAction ''body > form:nth-of-type(1) > button:nth-of-type(1)'' ''Send'',
        ClickAction ''#name'' [],
        ClickAction ''body > form:nth-of-type(1) > button:nth-of-type(1)'' ''Send'']
   \<and> fst (observe plain_env Map.empty
          ([InputEvent (name_input ''Ada'')]
           @ [MouseDown send_button (Some (name_input ''Ada''))]
           @ [BlurEvent (name_input ''Ada''), MouseDown (name_input ''Ada'') None]
           @ [MouseDown send_button (Some (name_input ''Adam''))])) =
       [ChangeAction ''#name'' ''Ada'',
        ClickAction ''body > form:nth-of-type(1) > button:nth-of-type(1)'' ''Send'',
        ClickAction ''#name'' [],
        ChangeAction ''#name'' ''Adam'',
        ClickAction ''body > form:nth-of-type(1) > button:nth-of-type(1)'' ''Send'']"
proof -
  have press_on_input:
    "onMouseDown plain_env lrv (name_input ''Ada'') None = ([ClickAction ''#name'' []], lrv)"
    for lrv
    by (simp add: onMouseDown_def sendMessage_def name_selector example_element_facts)
  have first_part:
    "observe plain_env Map.empty
       ([InputEvent (name_input ''Ada'')] @ [MouseDown send_button (Some (name_input ''Ada''))]
        @ [BlurEvent (name_input ''Ada''), MouseDown (name_input ''Ada'') None]) =
     ([ChangeAction ''#name'' ''Ada'',
       ClickAction ''body > form:nth-of-type(1) > button:nth-of-type(1)'' ''Send'',
       ClickAction ''#name'' []], [13 \<mapsto> ''Ada''])"
    by (simp add: press_on_input onMouseDown_def recordInputChange_def sendMessage_def
        name_selector button_selector example_element_facts)
  from
    pointer_down_flushes_edited_value
      [of plain_env
          "[InputEvent (name_input ''A''), InputEvent (name_input ''Ada''),
            BlurEvent (name_input ''Ada'')]"
          "[InputEvent (name_input ''A''), InputEvent (name_input ''Ada'')]"
          "name_input ''Ada''"
          "[BlurEvent (name_input ''Ada''), MouseDown (name_input ''Ada'') None]"
          send_button "''Ada''" "name_input ''Ada''" send_button "''Ada''"
          Map.empty "[InputEvent (name_input ''Ada'')]"]
  have same:
    "observe plain_env Map.empty
       [InputEvent (name_input ''A''), InputEvent (name_input ''Ada''),
        BlurEvent (name_input ''Ada'')] = ([], Map.empty)"
    "fst (observe plain_env Map.empty
          ([InputEvent (name_input ''A''), InputEvent (name_input ''Ada'')]
           @ [MouseDown send_button (Some (name_input ''Ada''))])) =
       [ChangeAction ''#name'' ''Ada'',
        ClickAction ''body > form:nth-of-type(1) > button:nth-of-type(1)'' ''Send'']"
    "fst (observe plain_env Map.empty
          ([InputEvent (name_input ''Ada'')]
           @ [MouseDown send_button (Some (name_input ''Ada''))]
           @ [BlurEvent (name_input ''Ada''), MouseDown (name_input ''Ada'') None]
           @ [MouseDown send_button (Some (name_input ''Ada''))])) =
       [ChangeAction ''#name'' ''Ada'',
        ClickAction ''body > form:nth-of-type(1) > button:nth-of-type(1)'' ''Send'',
        ClickAction ''#name'' [],
        ClickAction ''body > form:nth-of-type(1) > button:nth-of-type(1)'' ''Send'']"
    using first_part
    by (simp_all add: example_element_facts name_selector button_selector)
  from
    pointer_down_flushes_edited_value
      [of plain_env
          "[InputEvent (name_input ''A''), InputEvent (name_input ''Ada''),
            BlurEvent (name_input ''Ada'')]"
          "[InputEvent (name_input ''A''), InputEvent (name_input ''Ada'')]"
          "name_input ''Ada''"
          "[BlurEvent (name_input ''Ada''), MouseDown (name_input ''Ada'') None]"
          send_button "''Ada''" "name_input ''Adam''" send_button "''Adam''"
          Map.empty "[InputEvent (name_input ''Ada'')]"]
  have other:
    "fst (observe plain_env Map.empty
          ([InputEvent (name_input ''Ada'')]
           @ [MouseDown send_button (Some (name_input ''Ada''))]
           @ [BlurEvent (name_input ''Ada''), MouseDown (name_input ''Ada'') None]
           @ [MouseDown send_button (Some (name_input ''Adam''))])) =
       [ChangeAction ''#name'' ''Ada'',
        ClickAction ''body > form:nth-of-type(1) > button:nth-of-type(1)'' ''Send'',
        ClickAction ''#name'' [],
        ChangeAction ''#name'' ''Adam'',
        ClickAction ''body > form:nth-of-type(1) > button:nth-of-type(1)'' ''Send'']"
    using first_part
    by (simp add: example_element_facts name_selector button_selector)
  from same other show ?thesis by simp
qed

text \<open>
  C4 as stated fails in both content scripts. In the pointer-down script two edits of an
  input followed by its blur send nothing. In the debouncing script an edit at 0 ms,
  another at 100 ms and the blur at 200 ms send the final value twice: once from
  \<open>handleBlur\<close>, and once more when the timeout of the second edit runs at 600 ms.
\<close>

theorem edits_then_blur_counterexample:
  "fst (observe plain_env Map.empty
          [InputEvent (name_input ''A''), InputEvent (name_input ''Ada''),
           BlurEvent (name_input ''Ada'')]) = []
   \<and> cs_run plain_env None
        [(0, CsInput (name_input ''A'')), (100, CsInput (name_input ''Ada'')),
         (200, CsBlur (name_input ''Ada'')), (1000, Idle)] =
       [ChangeAction ''#name'' ''Ada'', ChangeAction ''#name'' ''Ada'']"
proof -
  have sel: "getSelector_cs plain_env (Some (name_input ''Ada'')) = Inr ''#name''"
    by (simp add: getSelector_cs_def name_input_def plain_node_def)
  have sent: "recordInputChange_cs plain_env (Some (name_input ''Ada'')) =
                Inr [ChangeAction ''#name'' ''Ada'']"
    by (simp add: recordInputChange_cs_def sel)
      (simp add: sendMessage_def plain_env_def name_input_def plain_node_def)
  have tag: "tagName (node_of (name_input v)) = ''INPUT''" for v
    by (simp add: name_input_def plain_node_def)
  have "cs_run plain_env None
        [(0, CsInput (name_input ''A'')), (100, CsInput (name_input ''Ada'')),
         (200, CsBlur (name_input ''Ada'')), (1000, Idle)] =
       [ChangeAction ''#name'' ''Ada'', ChangeAction ''#name'' ''Ada'']"
    by (simp add: run_due_timeout_def handleInput_def handleBlur_def editable_tags_def
        tag sent sent_or_thrown_def)
  then show ?thesis by simp
qed

end
